theory Spec2Isabelle
  imports Main
begin

section \<open>Data model (src/types/index.ts)\<close>

text \<open>
  The analyzer's result types. Two interfaces of the source share field names
  (\<open>name\<close>, \<open>line\<close>, \<open>isDefault\<close>, \<open>file\<close>, \<open>exports\<close>); the records keep the
  source's names behind a short prefix: \<open>e_\<close> for \<open>ExportedItem\<close>, \<open>i_\<close> for
  \<open>ImportReference\<close>, \<open>a_\<close> for \<open>ExportAnalysis\<close>, \<open>f_\<close> for \<open>FileAnalysis\<close>.
  JavaScript numbers that count lines, bytes and items are natural numbers.
\<close>

datatype ExportType =
  T_function | T_class | T_const | T_type | T_interface | T_enum | T_default | T_variable

record ExportedItem =
  e_name :: string
  e_type :: ExportType
  e_file :: string
  e_line :: nat
  e_isDefault :: bool
  e_estimatedSize :: nat

record ImportReference =
  i_name :: string
  i_fromFile :: string
  i_toFile :: string
  i_line :: nat
  i_isDefault :: bool

record ExportAnalysis =
  a_export :: ExportedItem
  a_usageCount :: nat
  a_usedIn :: "string list"
  a_isUnused :: bool

record FileAnalysis =
  f_file :: string
  f_exports :: "ExportAnalysis list"
  f_unusedCount :: nat
  f_usedCount :: nat

record ScanResult =
  files :: "FileAnalysis list"
  totalExports :: nat
  unusedExports :: nat
  usedExports :: nat
  estimatedSavings :: nat

section \<open>Regular expressions as the source writes them\<close>

text \<open>
  The analyzer is a set of JavaScript regular expressions run over the text of a file.
  They are embedded as syntax trees over the constructs the source uses, with a
  backtracking matcher that lists every way a pattern can match at a position, in the
  order in which the JavaScript engine tries them (greedy quantifiers first, the left
  alternative first). The first entry of that list is the match \<open>exec\<close> reports.

  Characters are 8-bit; the text of a file is a \<open>string\<close>.
\<close>

abbreviation nl :: char where "nl \<equiv> CHR 0x0A"
abbreviation sq :: char where "sq \<equiv> CHR 0x27"
abbreviation dq :: char where "dq \<equiv> CHR 0x22"

definition isSpace :: "char \<Rightarrow> bool" where
  \<comment> \<open>\<open>\s\<close> and \<open>trim\<close>: tab, LF, VT, FF, CR, space, no-break space\<close>
  "isSpace c = (c \<in> set [CHR 0x09, CHR 0x0A, CHR 0x0B, CHR 0x0C, CHR 0x0D, CHR 0x20, CHR 0xA0])"

definition isWord :: "char \<Rightarrow> bool" where
  \<comment> \<open>\<open>\w\<close>: \<open>[A-Za-z0-9_]\<close>\<close>
  "isWord c = (let n = (of_char c :: nat) in
     (48 \<le> n \<and> n \<le> 57) \<or> (65 \<le> n \<and> n \<le> 90) \<or> (97 \<le> n \<and> n \<le> 122) \<or> n = 95)"

definition isLineTerminator :: "char \<Rightarrow> bool" where
  \<comment> \<open>what \<open>^\<close> and \<open>$\<close> look at under the \<open>m\<close> flag\<close>
  "isLineTerminator c = (c = CHR 0x0A \<or> c = CHR 0x0D)"

datatype cls = WS | WordCh | AnyOf string | NoneOf string

fun inCls :: "cls \<Rightarrow> char \<Rightarrow> bool" where
  "inCls WS c = isSpace c"
| "inCls WordCh c = isWord c"
| "inCls (AnyOf s) c = (c \<in> set s)"
| "inCls (NoneOf s) c = (c \<notin> set s)"

datatype re =
    Lit string          \<comment> \<open>literal text\<close>
  | Cls cls             \<comment> \<open>one character of a class\<close>
  | Star cls            \<comment> \<open>\<open>c*\<close>, greedy\<close>
  | Plus cls            \<comment> \<open>\<open>c+\<close>, greedy\<close>
  | Opt re              \<comment> \<open>\<open>r?\<close>, greedy\<close>
  | Cat re re
  | Alt re re
  | Grp nat re          \<comment> \<open>capturing group number n\<close>
  | Bol                 \<comment> \<open>\<open>^\<close> under the \<open>m\<close> flag\<close>
  | Eol                 \<comment> \<open>\<open>$\<close> under the \<open>m\<close> flag\<close>
  | EndOfInput          \<comment> \<open>\<open>$\<close> without the \<open>m\<close> flag\<close>

fun seq :: "re list \<Rightarrow> re" where
  "seq [] = Lit []"
| "seq [r] = r"
| "seq (r # rs) = Cat r (seq rs)"

text \<open>
  A cursor is the character before the position (none at index 0) and the text from
  the position on. Captures are an association list from group number to captured text;
  a group that did not take part in the match has no entry (\<open>undefined\<close> in JavaScript).
\<close>

type_synonym cursor = "char option \<times> string"
type_synonym caps = "(nat \<times> string) list"

fun starRuns :: "cls \<Rightarrow> cursor \<Rightarrow> cursor list" where
  "starRuns c (p, []) = [(p, [])]"
| "starRuns c (p, x # r) =
     (if inCls c x then starRuns c (Some x, r) @ [(p, x # r)] else [(p, x # r)])"

fun ms :: "re \<Rightarrow> cursor \<times> caps \<Rightarrow> (cursor \<times> caps) list" where
  "ms (Lit w) ((p, r), k) =
     (if take (length w) r = w
      then [((if w = [] then p else Some (last w), drop (length w) r), k)] else [])"
| "ms (Cls c) ((p, r), k) =
     (case r of [] \<Rightarrow> [] | x # r' \<Rightarrow> if inCls c x then [((Some x, r'), k)] else [])"
| "ms (Star c) (cur, k) = map (\<lambda>e. (e, k)) (starRuns c cur)"
| "ms (Plus c) ((p, r), k) =
     (case r of [] \<Rightarrow> []
      | x # r' \<Rightarrow> if inCls c x then map (\<lambda>e. (e, k)) (starRuns c (Some x, r')) else [])"
| "ms (Opt a) st = ms a st @ [st]"
| "ms (Cat a b) st = concat (map (ms b) (ms a st))"
| "ms (Alt a b) st = ms a st @ ms b st"
| "ms (Grp n a) ((p, r), k) =
     map (\<lambda>((p', r'), k'). ((p', r'), (n, take (length r - length r') r) # k'))
       (ms a ((p, r), k))"
| "ms Bol ((p, r), k) =
     (if (case p of None \<Rightarrow> True | Some c \<Rightarrow> isLineTerminator c) then [((p, r), k)] else [])"
| "ms Eol ((p, r), k) =
     (if (case r of [] \<Rightarrow> True | c # _ \<Rightarrow> isLineTerminator c) then [((p, r), k)] else [])"
| "ms EndOfInput ((p, r), k) = (if r = [] then [((p, r), k)] else [])"

definition matchAt :: "re \<Rightarrow> cursor \<Rightarrow> (cursor \<times> caps) option" where
  \<comment> \<open>the match the engine reports at this position: its first success\<close>
  "matchAt r cur = (case ms r (cur, []) of [] \<Rightarrow> None | m # _ \<Rightarrow> Some m)"

text \<open>
  \<open>regex.exec\<close> from a position: the leftmost position at or after it where the pattern
  matches. The result is the cursor where the match starts, the cursor where it ends and
  the captures.
\<close>

type_synonym rmatch = "cursor \<times> cursor \<times> caps"

fun search :: "re \<Rightarrow> cursor \<Rightarrow> rmatch option" where
  "search r (p, []) =
     (case matchAt r (p, []) of Some (e, k) \<Rightarrow> Some ((p, []), e, k) | None \<Rightarrow> None)"
| "search r (p, x # xs) =
     (case matchAt r (p, x # xs) of
        Some (e, k) \<Rightarrow> Some ((p, x # xs), e, k)
      | None \<Rightarrow> search r (Some x, xs))"

lemma starRuns_length: "(p', r') \<in> set (starRuns c (p, r)) \<Longrightarrow> length r' \<le> length r"
proof (induction r arbitrary: p)
  case Nil
  then show ?case by simp
next
  case (Cons x r)
  show ?case
  proof (cases "inCls c x")
    case True
    with Cons.prems have "(p', r') \<in> set (starRuns c (Some x, r)) \<or> (p', r') = (p, x # r)"
      by auto
    then show ?thesis using Cons.IH [of "Some x"] by auto
  next
    case False
    with Cons.prems show ?thesis by simp
  qed
qed

lemma ms_length:
  "((p', r'), k') \<in> set (ms a ((p, r), k)) \<Longrightarrow> length r' \<le> length r"
proof (induction a arbitrary: p r k p' r' k')
  case (Lit w)
  then show ?case by (auto split: if_splits)
next
  case (Cls c)
  then show ?case by (auto split: if_splits list.splits)
next
  case (Star c)
  then show ?case by (auto dest: starRuns_length)
next
  case (Plus c)
  then show ?case
    by (auto split: if_splits list.splits dest!: starRuns_length)
next
  case (Opt a)
  then show ?case by auto
next
  case (Cat a b)
  from Cat.prems obtain p1 r1 k1 where
    m1: "((p1, r1), k1) \<in> set (ms a ((p, r), k))" and
    m2: "((p', r'), k') \<in> set (ms b ((p1, r1), k1))"
    by auto
  from Cat.IH(1) [OF m1] Cat.IH(2) [OF m2] show ?case by simp
next
  case (Alt a b)
  then show ?case by auto
next
  case (Grp n a)
  from Grp.prems obtain k1 where "((p', r'), k1) \<in> set (ms a ((p, r), k))"
    by auto
  from Grp.IH [OF this] show ?case .
next
  case Bol
  then show ?case by (auto split: if_splits)
next
  case Eol
  then show ?case by (auto split: if_splits)
next
  case EndOfInput
  then show ?case by (auto split: if_splits)
qed

lemma matchAt_length: "matchAt a (p, r) = Some ((p', r'), k') \<Longrightarrow> length r' \<le> length r"
proof -
  assume "matchAt a (p, r) = Some ((p', r'), k')"
  then have "((p', r'), k') \<in> set (ms a ((p, r), []))"
    by (auto simp: matchAt_def split: list.splits)
  then show ?thesis by (rule ms_length)
qed

lemma search_length:
  "search a (p, r) = Some ((ps, rs), (pe, re), k) \<Longrightarrow> length re \<le> length rs \<and> length rs \<le> length r"
proof (induction r arbitrary: p)
  case Nil
  then show ?case
    by (auto split: option.splits dest: matchAt_length)
next
  case (Cons x xs)
  show ?case
  proof (cases "matchAt a (p, x # xs)")
    case None
    with Cons.prems have "search a (Some x, xs) = Some ((ps, rs), (pe, re), k)" by simp
    from Cons.IH [OF this] show ?thesis by simp
  next
    case (Some m)
    with Cons.prems have "matchAt a (p, x # xs) = Some ((pe, re), k)" and "rs = x # xs"
      by (auto split: prod.splits)
    then show ?thesis by (auto dest: matchAt_length)
  qed
qed

text \<open>
  The loop \<open>while ((match = regex.exec(content)) !== null)\<close> on a regular expression
  with the \<open>g\<close> flag: each call resumes where the previous match ended. An empty match
  would leave \<open>lastIndex\<close> where it is and the JavaScript loop would not end; every
  pattern of the analyzer starts with the keyword \<open>export\<close> or \<open>import\<close>, so a match is
  never empty (lemmas \<open>patterns_progress\<close> and \<open>execAll_unfold\<close> below), and the guard
  only serves the termination proof.
\<close>

function execAll :: "re \<Rightarrow> cursor \<Rightarrow> rmatch list" where
  "execAll r cur =
     (case search r cur of
        None \<Rightarrow> []
      | Some (s, e, k) \<Rightarrow>
          if length (snd e) < length (snd s) then (s, e, k) # execAll r e else [])"
  by pat_completeness auto
termination
proof (relation "measure (\<lambda>(r, cur). length (snd cur))")
  show "wf (measure (\<lambda>(r, cur). length (snd cur)))" by simp
next
  fix r cur x2 s y e k
  assume "search r cur = Some x2" "(s, y) = x2" "(e, k) = y"
    "length (snd e) < length (snd s)"
  then have "search r (fst cur, snd cur) = Some ((fst s, snd s), (fst e, snd e), k)" by simp
  from search_length [OF this] \<open>length (snd e) < length (snd s)\<close>
  show "((r, e), (r, cur)) \<in> measure (\<lambda>(r, cur). length (snd cur))" by simp
qed

declare execAll.simps [simp del]

section \<open>String helpers of the JavaScript runtime\<close>

definition capture :: "caps \<Rightarrow> nat \<Rightarrow> string option" where
  \<comment> \<open>\<open>match[n]\<close>; \<open>None\<close> is \<open>undefined\<close>\<close>
  "capture k n = map_of k n"

definition matchIndex :: "string \<Rightarrow> rmatch \<Rightarrow> nat" where
  \<comment> \<open>\<open>match.index\<close>: the offset in the content at which the match starts\<close>
  "matchIndex content m = length content - length (snd (fst m))"

fun indexOfAux :: "string \<Rightarrow> string \<Rightarrow> nat \<Rightarrow> nat option" where
  "indexOfAux pat [] i = (if pat = [] then Some i else None)"
| "indexOfAux pat (x # xs) i =
     (if take (length pat) (x # xs) = pat then Some i else indexOfAux pat xs (Suc i))"

definition indexOf :: "string \<Rightarrow> string \<Rightarrow> nat \<Rightarrow> nat option" where
  \<comment> \<open>\<open>content.indexOf(pat, from)\<close>; \<open>None\<close> is \<open>-1\<close>\<close>
  "indexOf content pat from = indexOfAux pat (drop from content) (min from (length content))"

definition slice :: "string \<Rightarrow> nat \<Rightarrow> nat \<Rightarrow> string" where
  \<comment> \<open>\<open>content.slice(a, b)\<close> for non-negative indices\<close>
  "slice content a b = take (b - a) (drop a content)"

definition trim :: "string \<Rightarrow> string" where
  "trim s = rev (dropWhile isSpace (rev (dropWhile isSpace s)))"

fun splitOn :: "char \<Rightarrow> string \<Rightarrow> string list" where
  \<comment> \<open>\<open>s.split(c)\<close> for a one-character separator\<close>
  "splitOn c [] = [[]]"
| "splitOn c (x # xs) =
     (if x = c then [] # splitOn c xs
      else (case splitOn c xs of [] \<Rightarrow> [[x]] | w # ws \<Rightarrow> (x # w) # ws))"

text \<open>
  \<open>s.split(regex)\<close> as the language defines it: at each position the pattern is tried
  at that position only; a match that ends where the previous piece ended is passed
  over; otherwise the text since the previous piece is pushed and the scan resumes at the
  end of the match. The argument \<open>acc\<close> is the text since the previous piece.
\<close>

function splitLoop :: "re \<Rightarrow> string \<Rightarrow> cursor \<Rightarrow> string list" where
  "splitLoop r acc (p, []) = [acc]"
| "splitLoop r acc (p, x # xs) =
     (case matchAt r (p, x # xs) of
        None \<Rightarrow> splitLoop r (acc @ [x]) (Some x, xs)
      | Some ((pe, re), k) \<Rightarrow>
          if acc = [] \<and> length re = length (x # xs) then splitLoop r (acc @ [x]) (Some x, xs)
          else if length re \<le> length (x # xs) then acc # splitLoop r [] (pe, re)
          else [])"
  by pat_completeness auto
termination
  by (relation "measure (\<lambda>(r, acc, cur). 2 * length (snd cur) + (if acc = [] then 0 else 1))")
     auto

definition split :: "string \<Rightarrow> re \<Rightarrow> string list" where
  "split s r =
     (if s = [] then (case matchAt r (None, []) of None \<Rightarrow> [[]] | Some _ \<Rightarrow> [])
      else splitLoop r [] (None, s))"

definition startsWith :: "string \<Rightarrow> string \<Rightarrow> bool" where
  "startsWith s pre = (take (length pre) s = pre)"

definition endsWith :: "string \<Rightarrow> string \<Rightarrow> bool" where
  "endsWith s suf = (length suf \<le> length s \<and> drop (length s - length suf) s = suf)"

section \<open>The analyzer (src/analyzer/export-analyzer.ts)\<close>

subsection \<open>estimateSize\<close>

text \<open>
  \<open>Math.round(code.length * 0.6)\<close>. The product is a multiple of one fifth, so it is
  never within a rounding error of a half, and rounding to the nearest integer is
  \<open>\<lfloor>(6 n + 5) / 10\<rfloor>\<close> on the length \<open>n\<close>.
\<close>

definition estimateSize :: "string \<Rightarrow> nat" where
  "estimateSize code = (6 * length code + 5) div 10"

subsection \<open>extractExports\<close>

text \<open>The patterns of \<open>extractExports\<close>, in the order of the source's array.\<close>

definition reFunction :: re where
  \<comment> \<open>\<open>/^export\s+function\s+(\w+)/gm\<close>\<close>
  "reFunction = seq [Bol, Lit ''export'', Plus WS, Lit ''function'', Plus WS, Grp 1 (Plus WordCh)]"

definition reAsyncFunction :: re where
  \<comment> \<open>\<open>/^export\s+async\s+function\s+(\w+)/gm\<close>\<close>
  "reAsyncFunction =
     seq [Bol, Lit ''export'', Plus WS, Lit ''async'', Plus WS, Lit ''function'', Plus WS,
          Grp 1 (Plus WordCh)]"

definition reClass :: re where
  \<comment> \<open>\<open>/^export\s+class\s+(\w+)/gm\<close>\<close>
  "reClass = seq [Bol, Lit ''export'', Plus WS, Lit ''class'', Plus WS, Grp 1 (Plus WordCh)]"

definition reConst :: re where
  \<comment> \<open>\<open>/^export\s+const\s+(\w+)\s*[=:]/gm\<close>\<close>
  "reConst =
     seq [Bol, Lit ''export'', Plus WS, Lit ''const'', Plus WS, Grp 1 (Plus WordCh), Star WS,
          Cls (AnyOf ''=:'')]"

definition reLet :: re where
  \<comment> \<open>\<open>/^export\s+let\s+(\w+)\s*[=:]/gm\<close>\<close>
  "reLet =
     seq [Bol, Lit ''export'', Plus WS, Lit ''let'', Plus WS, Grp 1 (Plus WordCh), Star WS,
          Cls (AnyOf ''=:'')]"

definition reVar :: re where
  \<comment> \<open>\<open>/^export\s+var\s+(\w+)\s*[=:]/gm\<close>\<close>
  "reVar =
     seq [Bol, Lit ''export'', Plus WS, Lit ''var'', Plus WS, Grp 1 (Plus WordCh), Star WS,
          Cls (AnyOf ''=:'')]"

definition reType :: re where
  \<comment> \<open>\<open>/^export\s+type\s+(\w+)/gm\<close>\<close>
  "reType = seq [Bol, Lit ''export'', Plus WS, Lit ''type'', Plus WS, Grp 1 (Plus WordCh)]"

definition reInterface :: re where
  \<comment> \<open>\<open>/^export\s+interface\s+(\w+)/gm\<close>\<close>
  "reInterface =
     seq [Bol, Lit ''export'', Plus WS, Lit ''interface'', Plus WS, Grp 1 (Plus WordCh)]"

definition reEnum :: re where
  \<comment> \<open>\<open>/^export\s+enum\s+(\w+)/gm\<close>\<close>
  "reEnum = seq [Bol, Lit ''export'', Plus WS, Lit ''enum'', Plus WS, Grp 1 (Plus WordCh)]"

definition reDefaultDecl :: re where
  \<comment> \<open>\<open>/^export\s+default\s+(?:function|class)\s+(\w+)?/gm\<close>\<close>
  "reDefaultDecl =
     seq [Bol, Lit ''export'', Plus WS, Lit ''default'', Plus WS,
          Alt (Lit ''function'') (Lit ''class''), Plus WS, Opt (Grp 1 (Plus WordCh))]"

definition reDefaultName :: re where
  \<comment> \<open>\<open>/^export\s+default\s+(\w+)\s*;?$/gm\<close>\<close>
  "reDefaultName =
     seq [Bol, Lit ''export'', Plus WS, Lit ''default'', Plus WS, Grp 1 (Plus WordCh), Star WS,
          Opt (Lit '';''), Eol]"

definition patterns :: "(re \<times> ExportType) list" where
  "patterns =
     [(reFunction, T_function), (reAsyncFunction, T_function), (reClass, T_class),
      (reConst, T_const), (reLet, T_variable), (reVar, T_variable), (reType, T_type),
      (reInterface, T_interface), (reEnum, T_enum), (reDefaultDecl, T_default),
      (reDefaultName, T_default)]"

definition getLineNumber :: "string \<Rightarrow> nat \<Rightarrow> nat" where
  \<comment> \<open>one more than the number of newlines before the index\<close>
  "getLineNumber content index = Suc (length (filter (\<lambda>c. c = nl) (take index content)))"

definition declItem :: "string \<Rightarrow> string \<Rightarrow> ExportType \<Rightarrow> rmatch \<Rightarrow> ExportedItem" where
  \<comment> \<open>the body of the \<open>while\<close> loop over one declaration pattern\<close>
  "declItem content filePath ty m =
     (let name = (case capture (snd (snd m)) 1 of
                    None \<Rightarrow> ''default''
                  | Some n \<Rightarrow> if n = [] then ''default'' else n);
          index = matchIndex content m;
          line = getLineNumber content index;
          endIndex = (case indexOf content [nl, nl] index of
                        None \<Rightarrow> length content | Some i \<Rightarrow> i);
          code = slice content index endIndex
      in \<lparr> e_name = name, e_type = ty, e_file = filePath, e_line = line,
           e_isDefault = (ty = T_default), e_estimatedSize = estimateSize code \<rparr>)"

definition declItems :: "string \<Rightarrow> string \<Rightarrow> ExportedItem list" where
  \<comment> \<open>\<open>for (const { regex, type } of patterns)\<close>: every item is pushed\<close>
  "declItems content filePath =
     concat (map (\<lambda>(r, ty). map (declItem content filePath ty) (execAll r (None, content)))
       patterns)"

definition namedExportRegex :: re where
  \<comment> \<open>\<open>/^export\s*\{([^}]+)\}/gm\<close>\<close>
  "namedExportRegex =
     seq [Bol, Lit ''export'', Star WS, Lit ''{'', Grp 1 (Plus (NoneOf ''}'')), Lit ''}'']"

definition asRegex :: re where
  \<comment> \<open>\<open>/\s+as\s+/\<close>\<close>
  "asRegex = seq [Plus WS, Lit ''as'', Plus WS]"

definition exportedName :: "string \<Rightarrow> string" where
  \<comment> \<open>\<open>n => { parts = n.trim().split(/\s+as\s+/); return parts[parts.length - 1].trim() }\<close>;
      \<open>parts\<close> is never empty (lemma \<open>split_asRegex_nonempty\<close>)\<close>
  "exportedName n = trim (last (split (trim n) asRegex))"

definition reexportItem :: "string \<Rightarrow> nat \<Rightarrow> string \<Rightarrow> ExportedItem" where
  "reexportItem filePath line name =
     \<lparr> e_name = name, e_type = T_const, e_file = filePath, e_line = line,
       e_isDefault = False, e_estimatedSize = 100 \<rparr>"

definition pushReexport :: "string \<Rightarrow> nat \<Rightarrow> ExportedItem list \<Rightarrow> string \<Rightarrow> ExportedItem list"
  where
  \<comment> \<open>\<open>if (name && !exports.some(e => e.name === name)) exports.push(...)\<close>\<close>
  "pushReexport filePath line exports name =
     (if name \<noteq> [] \<and> \<not> list_ex (\<lambda>e. e_name e = name) exports
      then exports @ [reexportItem filePath line name] else exports)"

definition reexportStep :: "string \<Rightarrow> string \<Rightarrow> ExportedItem list \<Rightarrow> rmatch \<Rightarrow> ExportedItem list"
  where
  \<comment> \<open>the body of the \<open>while\<close> loop over \<open>namedExportRegex\<close>; group 1 takes part in every
      match (lemma \<open>captures_defined\<close>)\<close>
  "reexportStep content filePath exports m =
     (let names = map exportedName (splitOn CHR '','' (the (capture (snd (snd m)) 1)));
          line = getLineNumber content (matchIndex content m)
      in foldl (pushReexport filePath line) exports names)"

definition extractExports :: "string \<Rightarrow> string \<Rightarrow> ExportedItem list" where
  "extractExports content filePath =
     foldl (reexportStep content filePath) (declItems content filePath)
       (execAll namedExportRegex (None, content))"

subsection \<open>The file system and Node's path functions\<close>

text \<open>
  \<open>readFileSync\<close> is a partial map from absolute paths to the text of a file: \<open>None\<close>
  where the call throws (no such file, a directory, no permission).

  \<open>path.dirname\<close> and \<open>path.resolve\<close> are Node's POSIX functions. The traversal is asked
  for absolute paths, so the importing file is absolute; \<open>pathResolve\<close> follows Node on
  the two cases that leaves (an absolute specifier, or a specifier joined to the absolute
  directory), where no working directory is consulted.
\<close>

type_synonym fs = "string \<Rightarrow> string option"

definition dirname :: "string \<Rightarrow> string" where
  "dirname path =
     (if path = [] then ''.''
      else let hasRoot = (hd path = CHR ''/'');
               r1 = dropWhile (\<lambda>c. c = CHR ''/'') (rev (tl path));
               r2 = dropWhile (\<lambda>c. c \<noteq> CHR ''/'') r1
           in if r2 = [] then (if hasRoot then ''/'' else ''.'')
              else let pre = hd path # rev (tl r2)
                   in if hasRoot \<and> length pre = 1 then ''//'' else pre)"

definition normalizeSegments :: "string list \<Rightarrow> string list" where
  \<comment> \<open>drops empty and \<open>.\<close> segments; \<open>..\<close> removes the segment before it, if any\<close>
  "normalizeSegments segs =
     foldl (\<lambda>acc seg. if seg = [] \<or> seg = ''.'' then acc
                       else if seg = ''..'' then butlast acc
                       else acc @ [seg]) [] segs"

fun joinSlash :: "string list \<Rightarrow> string" where
  "joinSlash [] = []"
| "joinSlash [x] = x"
| "joinSlash (x # xs) = x @ ''/'' @ joinSlash xs"

definition pathResolve :: "string \<Rightarrow> string \<Rightarrow> string" where
  "pathResolve dir importPath =
     (let joined = (if startsWith importPath ''/'' then importPath
                    else dir @ ''/'' @ importPath)
      in (if startsWith joined ''/'' then ''/'' else [])
           @ joinSlash (normalizeSegments (splitOn CHR ''/'' joined)))"

subsection \<open>resolveImportPath\<close>

definition extensions :: "string list" where
  "extensions =
     [''.ts'', ''.tsx'', ''.js'', ''.jsx'', ''.mjs'', ''/index.ts'', ''/index.tsx'', ''/index.js'']"

fun tryExtensions :: "fs \<Rightarrow> string \<Rightarrow> string list \<Rightarrow> string" where
  \<comment> \<open>the \<open>for (const ext of extensions)\<close> loop and the \<open>return resolved\<close> after it\<close>
  "tryExtensions readFile resolved [] = resolved"
| "tryExtensions readFile resolved (ext # exts) =
     (case readFile (resolved @ ext) of
        Some _ \<Rightarrow> resolved @ ext
      | None \<Rightarrow> tryExtensions readFile resolved exts)"

definition resolveImportPath :: "fs \<Rightarrow> string \<Rightarrow> string \<Rightarrow> string \<Rightarrow> string" where
  "resolveImportPath readFile importPath fromFile rootDir =
     tryExtensions readFile (pathResolve (dirname fromFile) importPath) extensions"

subsection \<open>extractImports\<close>

definition namedImportRegex :: re where
  \<comment> \<open>\<open>/import\s*\{([^}]+)\}\s*from\s*['"]([^'"]+)['"]/g\<close>\<close>
  "namedImportRegex =
     seq [Lit ''import'', Star WS, Lit ''{'', Grp 1 (Plus (NoneOf ''}'')), Lit ''}'', Star WS,
          Lit ''from'', Star WS, Cls (AnyOf [sq, dq]), Grp 2 (Plus (NoneOf [sq, dq])),
          Cls (AnyOf [sq, dq])]"

definition defaultImportRegex :: re where
  \<comment> \<open>\<open>/import\s+(\w+)(?:\s*,\s*\{[^}]*\})?\s+from\s*['"]([^'"]+)['"]/g\<close>\<close>
  "defaultImportRegex =
     seq [Lit ''import'', Plus WS, Grp 1 (Plus WordCh),
          Opt (seq [Star WS, Lit '','', Star WS, Lit ''{'', Star (NoneOf ''}''), Lit ''}'']),
          Plus WS, Lit ''from'', Star WS, Cls (AnyOf [sq, dq]), Grp 2 (Plus (NoneOf [sq, dq])),
          Cls (AnyOf [sq, dq])]"

definition importedName :: "string \<Rightarrow> string" where
  \<comment> \<open>\<open>n => { parts = n.trim().split(/\s+as\s+/); return parts[0].trim() }\<close>;
      \<open>parts\<close> is never empty (lemma \<open>split_asRegex_nonempty\<close>)\<close>
  "importedName n = trim (hd (split (trim n) asRegex))"

definition isExternal :: "string \<Rightarrow> bool" where
  \<comment> \<open>\<open>!fromPath.startsWith('.') && !fromPath.startsWith('/')\<close>\<close>
  "isExternal fromPath = (\<not> startsWith fromPath ''.'' \<and> \<not> startsWith fromPath ''/'')"

definition namedImportStep ::
  "fs \<Rightarrow> string \<Rightarrow> string \<Rightarrow> string \<Rightarrow> ImportReference list \<Rightarrow> rmatch \<Rightarrow> ImportReference list"
  where
  \<comment> \<open>the body of the \<open>while\<close> loop over \<open>namedImportRegex\<close>; groups 1 and 2 take part in
      every match (lemma \<open>captures_defined\<close>)\<close>
  "namedImportStep readFile content filePath rootDir imports m =
     (let names = map importedName (splitOn CHR '','' (the (capture (snd (snd m)) 1)));
          fromPath = the (capture (snd (snd m)) 2);
          line = getLineNumber content (matchIndex content m)
      in if isExternal fromPath then imports
         else let resolvedPath = resolveImportPath readFile fromPath filePath rootDir
              in imports @
                 map (\<lambda>name. \<lparr> i_name = name, i_fromFile = resolvedPath, i_toFile = filePath,
                               i_line = line, i_isDefault = False \<rparr>)
                   (filter (\<lambda>name. name \<noteq> []) names))"

definition defaultImportStep ::
  "fs \<Rightarrow> string \<Rightarrow> string \<Rightarrow> string \<Rightarrow> ImportReference list \<Rightarrow> rmatch \<Rightarrow> ImportReference list"
  where
  \<comment> \<open>the body of the \<open>while\<close> loop over \<open>defaultImportRegex\<close>; group 2 takes part in every
      match (lemma \<open>captures_defined\<close>)\<close>
  "defaultImportStep readFile content filePath rootDir imports m =
     (let fromPath = the (capture (snd (snd m)) 2);
          line = getLineNumber content (matchIndex content m)
      in if isExternal fromPath then imports
         else let resolvedPath = resolveImportPath readFile fromPath filePath rootDir
              in imports @
                 [\<lparr> i_name = ''default'', i_fromFile = resolvedPath, i_toFile = filePath,
                    i_line = line, i_isDefault = True \<rparr>])"

definition extractImports :: "fs \<Rightarrow> string \<Rightarrow> string \<Rightarrow> string \<Rightarrow> ImportReference list" where
  "extractImports readFile content filePath rootDir =
     (let named = foldl (namedImportStep readFile content filePath rootDir) []
                    (execAll namedImportRegex (None, content))
      in foldl (defaultImportStep readFile content filePath rootDir) named
           (execAll defaultImportRegex (None, content)))"

subsection \<open>analyzeExports\<close>

definition DEFAULT_INCLUDE :: "string list" where
  "DEFAULT_INCLUDE = [''**/*.ts'', ''**/*.tsx'', ''**/*.js'', ''**/*.jsx'', ''**/*.mjs'']"

definition DEFAULT_EXCLUDE :: "string list" where
  "DEFAULT_EXCLUDE =
     [''**/node_modules/**'', ''**/dist/**'', ''**/build/**'', ''**/.next/**'',
      ''**/coverage/**'', ''**/*.d.ts'', ''**/*.test.*'', ''**/*.spec.*'', ''**/__tests__/**'']"

text \<open>
  The traversal (\<open>fast-glob\<close>) is a library outside the repository. It is a parameter of
  the model: given the include patterns, the directory and the ignore patterns it either
  rejects with an error or yields the absolute paths of the files.
\<close>

datatype error = TraversalError string

type_synonym glob = "string list \<Rightarrow> string \<Rightarrow> string list \<Rightarrow> error + string list"

definition readStep ::
  "fs \<Rightarrow> string \<Rightarrow> ExportedItem list \<times> ImportReference list \<Rightarrow> string
     \<Rightarrow> ExportedItem list \<times> ImportReference list" where
  \<comment> \<open>the body of \<open>for (const file of files)\<close>: a file that cannot be read is passed over\<close>
  "readStep readFile rootDir acc file =
     (case readFile file of
        None \<Rightarrow> acc
      | Some content \<Rightarrow>
          (fst acc @ extractExports content file,
           snd acc @ extractImports readFile content file rootDir))"

definition collect :: "fs \<Rightarrow> string \<Rightarrow> string list \<Rightarrow> ExportedItem list \<times> ImportReference list"
  where
  "collect readFile rootDir fileList = foldl (readStep readFile rootDir) ([], []) fileList"

definition keepExport :: "bool \<Rightarrow> ExportedItem \<Rightarrow> bool" where
  \<comment> \<open>\<open>includeTypes ? allExports : allExports.filter(e => e.type !== 'type' && e.type !== 'interface')\<close>\<close>
  "keepExport includeTypes e = (includeTypes \<or> (e_type e \<noteq> T_type \<and> e_type e \<noteq> T_interface))"

definition sourceExtensions :: "string list" where
  \<comment> \<open>the alternatives of \<open>/\.(ts|tsx|js|jsx|mjs)$/\<close>\<close>
  "sourceExtensions = [''.ts'', ''.tsx'', ''.js'', ''.jsx'', ''.mjs'']"

definition stripExtRegex :: re where
  \<comment> \<open>\<open>/\.(ts|tsx|js|jsx|mjs)$/\<close>\<close>
  "stripExtRegex =
     seq [Lit ''.'',
          Grp 1 (Alt (Lit ''ts'') (Alt (Lit ''tsx'') (Alt (Lit ''js'') (Alt (Lit ''jsx'') (Lit ''mjs''))))),
          EndOfInput]"

definition stripExt :: "string \<Rightarrow> string" where
  \<comment> \<open>\<open>s.replace(/\.(ts|tsx|js|jsx|mjs)$/, '')\<close>: the first match is removed\<close>
  "stripExt s =
     (case search stripExtRegex (None, s) of
        None \<Rightarrow> s
      | Some ((ps, rs), (pe, re), k) \<Rightarrow> take (length s - length rs) s @ re)"

definition isSameFile :: "ImportReference \<Rightarrow> ExportedItem \<Rightarrow> bool" where
  "isSameFile imp exp =
     (i_fromFile imp = e_file exp \<or> stripExt (i_fromFile imp) = stripExt (e_file exp))"

definition isUsage :: "ExportedItem \<Rightarrow> ImportReference \<Rightarrow> bool" where
  \<comment> \<open>the predicate of \<open>allImports.filter\<close>\<close>
  "isUsage exp imp =
     (if \<not> isSameFile imp exp then False
      else if e_isDefault exp then i_isDefault imp
      else i_name imp = e_name exp)"

fun uniq :: "'a list \<Rightarrow> 'a list" where
  \<comment> \<open>\<open>[...new Set(xs)]\<close>: the first occurrence of each value, in order\<close>
  "uniq [] = []"
| "uniq (x # xs) = x # uniq (filter (\<lambda>y. y \<noteq> x) xs)"

definition analyse :: "ImportReference list \<Rightarrow> ExportedItem \<Rightarrow> ExportAnalysis" where
  "analyse allImports exp =
     (let usages = filter (isUsage exp) allImports;
          usedIn = uniq (map i_toFile usages);
          isUnused = (length usedIn = 0)
      in \<lparr> a_export = exp, a_usageCount = length usedIn, a_usedIn = usedIn,
           a_isUnused = isUnused \<rparr>)"

text \<open>
  \<open>fileAnalysisMap\<close> is a \<open>Map\<close>: its entries keep the order in which their keys were first
  set, which is the order \<open>Array.from(map.values())\<close> returns.
\<close>

type_synonym fileMap = "(string \<times> FileAnalysis) list"

definition addAnalysis :: "FileAnalysis \<Rightarrow> ExportAnalysis \<Rightarrow> FileAnalysis" where
  "addAnalysis fa an =
     (if a_isUnused an
      then fa \<lparr> f_exports := f_exports fa @ [an], f_unusedCount := Suc (f_unusedCount fa) \<rparr>
      else fa \<lparr> f_exports := f_exports fa @ [an], f_usedCount := Suc (f_usedCount fa) \<rparr>)"

definition usageStep :: "ImportReference list \<Rightarrow> fileMap \<Rightarrow> ExportedItem \<Rightarrow> fileMap" where
  \<comment> \<open>the body of \<open>for (const exp of filteredExports)\<close>\<close>
  "usageStep allImports m exp =
     (let an = analyse allImports exp;
          m1 = (if map_of m (e_file exp) = None
                then m @ [(e_file exp,
                           \<lparr> f_file = e_file exp, f_exports = [], f_unusedCount = 0,
                             f_usedCount = 0 \<rparr>)]
                else m)
      in map (\<lambda>(key, fa). if key = e_file exp then (key, addAnalysis fa an) else (key, fa)) m1)"

definition fileAnalysisMap :: "ImportReference list \<Rightarrow> ExportedItem list \<Rightarrow> fileMap" where
  "fileAnalysisMap allImports filteredExports = foldl (usageStep allImports) [] filteredExports"

definition sortFiles :: "FileAnalysis list \<Rightarrow> FileAnalysis list" where
  \<comment> \<open>\<open>.sort((a, b) => b.unusedCount - a.unusedCount)\<close>: a stable sort, largest count first\<close>
  "sortFiles fas = sort_key (\<lambda>fa. - int (f_unusedCount fa)) fas"

definition unusedSizes :: "FileAnalysis \<Rightarrow> nat" where
  \<comment> \<open>\<open>fa.exports.filter(e => e.isUnused).reduce((sum, e) => sum + e.export.estimatedSize, 0)\<close>\<close>
  "unusedSizes fa =
     foldl (\<lambda>sum e. sum + e_estimatedSize (a_export e)) 0 (filter a_isUnused (f_exports fa))"

definition totalStep :: "nat \<times> nat \<times> nat \<Rightarrow> FileAnalysis \<Rightarrow> nat \<times> nat \<times> nat" where
  \<comment> \<open>the body of \<open>for (const fa of fileAnalyses)\<close> on (totalExports, unusedExports, estimatedSavings)\<close>
  "totalStep acc fa =
     (case acc of (totalN, unusedN, savings) \<Rightarrow>
        (totalN + length (f_exports fa), unusedN + f_unusedCount fa, savings + unusedSizes fa))"

definition report :: "ImportReference list \<Rightarrow> ExportedItem list \<Rightarrow> ScanResult" where
  \<comment> \<open>\<open>analyzeExports\<close> from \<open>// Analyze usage\<close> on\<close>
  "report allImports filteredExports =
     (let fileAnalyses =
            sortFiles (filter (\<lambda>f. length (f_exports f) > 0)
              (map snd (fileAnalysisMap allImports filteredExports)))
      in case foldl totalStep (0, 0, 0) fileAnalyses of
           (totalN, unusedN, savings) \<Rightarrow>
             \<lparr> files = fileAnalyses, totalExports = totalN, unusedExports = unusedN,
               usedExports = totalN - unusedN, estimatedSavings = savings \<rparr>)"

definition analyzeExports ::
  "glob \<Rightarrow> fs \<Rightarrow> string \<Rightarrow> bool \<Rightarrow> string list \<Rightarrow> error + ScanResult" where
  "analyzeExports globFn readFile rootDir includeTypes exclude =
     (let allExcludes = DEFAULT_EXCLUDE @ exclude
      in case globFn DEFAULT_INCLUDE rootDir allExcludes of
           Inl err \<Rightarrow> Inl err
         | Inr fileList \<Rightarrow>
             (case collect readFile rootDir fileList of
                (allExports, allImports) \<Rightarrow>
                  Inr (report allImports (filter (keepExport includeTypes) allExports))))"

section \<open>The spec's wording, example inputs and proof tools\<close>

subsection \<open>The spec's wording\<close>

text \<open>
  The text from a position to the next blank line (two newlines in a row) or to the end of
  the file, as the spec words the extent of a declaration.
\<close>

fun upToBlankLine :: "string \<Rightarrow> string" where
  "upToBlankLine [] = []"
| "upToBlankLine [x] = [x]"
| "upToBlankLine (x # y # r) = (if x = nl \<and> y = nl then [] else x # upToBlankLine (y # r))"

definition fromExportList :: "ExportedItem \<Rightarrow> bool" where
  \<comment> \<open>what every item pushed from an \<open>export { ... }\<close> list carries\<close>
  "fromExportList e = (e_type e = T_const \<and> \<not> e_isDefault e \<and> e_estimatedSize e = 100)"


text \<open>
  The report of one file in closed form: the analyses of the exports declared in file \<open>k\<close>,
  in their order, with the two counts.
\<close>

definition fileGroup :: "ImportReference list \<Rightarrow> string \<Rightarrow> ExportedItem list \<Rightarrow> FileAnalysis" where
  "fileGroup allImports k exps =
     (let ans = map (analyse allImports) (filter (\<lambda>e. e_file e = k) exps)
      in \<lparr> f_file = k, f_exports = ans, f_unusedCount = length (filter a_isUnused ans),
           f_usedCount = length (filter (\<lambda>a. \<not> a_isUnused a) ans) \<rparr>)"

text \<open>
  Stripping a known source extension, as the spec words the comparison of files: the first
  of the extensions that ends the path is cut off; a path that ends in none is kept.
\<close>

definition stripKnownExtension :: "string \<Rightarrow> string" where
  "stripKnownExtension s =
     (case find (\<lambda>ext. endsWith s ext) sourceExtensions of
        Some ext \<Rightarrow> take (length s - length ext) s
      | None \<Rightarrow> s)"

definition dotFirst :: "string \<Rightarrow> bool" where
  \<comment> \<open>a dot followed by text without a dot\<close>
  "dotFirst e = (\<exists>t. e = CHR ''.'' # t \<and> CHR ''.'' \<notin> set t)"



subsection \<open>Example projects\<close>

definition globOf :: "string \<Rightarrow> string list \<Rightarrow> glob" where
  \<comment> \<open>a traversal that lists the given files under one root and lists nothing elsewhere\<close>
  "globOf root fileList includes cwd ignore = (if cwd = root then Inr fileList else Inr [])"

definition failingGlob :: glob where
  \<comment> \<open>a traversal that rejects\<close>
  "failingGlob includes cwd ignore = Inl (TraversalError ''EACCES'')"

definition literalFs :: fs where
  \<comment> \<open>a project in which both \<open>/p/x\<close> and \<open>/p/x.ts\<close> are files\<close>
  "literalFs p = (if p = ''/p/x'' \<or> p = ''/p/x.ts'' then Some ''export const a = 1'' else None)"

definition sizeExample :: string where
  "sizeExample = ''export const a = 1'' @ [nl, nl] @ ''export { b }''"

definition sizeMatch :: rmatch where
  \<comment> \<open>the match of \<open>reConst\<close> in \<open>sizeExample\<close>\<close>
  "sizeMatch =
     ((None, sizeExample), (Some CHR ''='', '' 1'' @ [nl, nl] @ ''export { b }''), [(1, ''a'')])"

definition overloads :: string where
  \<comment> \<open>a TypeScript function with two overload signatures\<close>
  "overloads =
     ''export function f(a: string): void;'' @ [nl] @
     ''export function f(a: number): void;'' @ [nl] @
     ''export function f(a: any) {}''"

definition threeFs :: fs where
  \<comment> \<open>three files, one export each, no imports\<close>
  "threeFs p =
     (if p = ''/p/a.ts'' then Some ''export function a1() {}''
      else if p = ''/p/b.ts'' then Some ''export const b1 = 2''
      else if p = ''/p/c.ts'' then Some ''export class C1 {}''
      else None)"

definition threeExports :: "ExportedItem list" where
  "threeExports =
     [\<lparr>e_name = ''a1'', e_type = T_function, e_file = ''/p/a.ts'', e_line = 1,
       e_isDefault = False, e_estimatedSize = 14\<rparr>,
      \<lparr>e_name = ''b1'', e_type = T_const, e_file = ''/p/b.ts'', e_line = 1,
       e_isDefault = False, e_estimatedSize = 11\<rparr>,
      \<lparr>e_name = ''C1'', e_type = T_class, e_file = ''/p/c.ts'', e_line = 1,
       e_isDefault = False, e_estimatedSize = 11\<rparr>]"

definition typesFs :: fs where
  \<comment> \<open>a file that exports only an interface, and a file that imports it\<close>
  "typesFs p =
     (if p = ''/p/a.ts'' then Some ''export interface Foo {}''
      else if p = ''/p/b.ts''
      then Some (''import { Foo } from '' @ [sq] @ ''./a'' @ [sq] @ [nl] @ ''export const b1 = 1'')
      else None)"

definition typesExports :: "ExportedItem list" where
  "typesExports =
     [\<lparr>e_name = ''Foo'', e_type = T_interface, e_file = ''/p/a.ts'', e_line = 1,
       e_isDefault = False, e_estimatedSize = 14\<rparr>,
      \<lparr>e_name = ''b1'', e_type = T_const, e_file = ''/p/b.ts'', e_line = 2,
       e_isDefault = False, e_estimatedSize = 11\<rparr>]"

definition typesImports :: "ImportReference list" where
  "typesImports =
     [\<lparr>i_name = ''Foo'', i_fromFile = ''/p/a.ts'', i_toFile = ''/p/b.ts'', i_line = 1,
       i_isDefault = False\<rparr>]"

definition defaultFs :: fs where
  \<comment> \<open>the spec's example of a default export and its import\<close>
  "defaultFs p =
     (if p = ''/p/a.ts'' then Some ''export default function run(){}''
      else if p = ''/p/b.ts'' then Some (''import run from '' @ [sq] @ ''./a'' @ [sq])
      else None)"

definition runExport :: ExportedItem where
  "runExport =
     \<lparr>e_name = ''run'', e_type = T_default, e_file = ''/p/a.ts'', e_line = 1,
      e_isDefault = True, e_estimatedSize = 19\<rparr>"

definition runImport :: ImportReference where
  "runImport =
     \<lparr>i_name = ''default'', i_fromFile = ''/p/a.ts'', i_toFile = ''/p/b.ts'', i_line = 1,
      i_isDefault = True\<rparr>"

definition nsFs :: fs where
  \<comment> \<open>a module consumed through a namespace import only\<close>
  "nsFs p =
     (if p = ''/p/a.ts'' then Some ''export function helper() {}''
      else if p = ''/p/b.ts'' then Some (''import * as ns from '' @ [sq] @ ''./a'' @ [sq])
      else None)"

definition goImport :: ImportReference where
  \<comment> \<open>a default import of the module of \<open>defaultFs\<close> under another name and extension\<close>
  "goImport =
     \<lparr>i_name = ''default'', i_fromFile = ''/p/a.js'', i_toFile = ''/p/b.ts'', i_line = 1,
      i_isDefault = True\<rparr>"

definition runNamedImport :: ImportReference where
  \<comment> \<open>a named import of the same module that carries the name of its default export\<close>
  "runNamedImport =
     \<lparr>i_name = ''run'', i_fromFile = ''/p/a.ts'', i_toFile = ''/p/c.ts'', i_line = 1,
      i_isDefault = False\<rparr>"


subsection \<open>Statements of a given shape\<close>





definition namespaceImport :: "string \<Rightarrow> string \<Rightarrow> string" where
  \<comment> \<open>the statement \<open>import * as n from 'spec'\<close>\<close>
  "namespaceImport n spec = ''import * as '' @ n @ '' from '' @ [sq] @ spec @ [sq]"



subsection \<open>Tools for reasoning about the matcher\<close>

text \<open>
  Tools for reasoning about the matcher on texts with unknown parts: lower bounds on what
  a match consumes (\<open>minLen\<close>, and \<open>minCount\<close> for the characters of a given set), the
  longest run of a class (\<open>maxRun\<close>), the first success (\<open>first\<close>), and \<open>greedy\<close>, which
  follows the first choice of every quantifier and, where it succeeds, agrees with the
  engine (lemma \<open>greedy_first\<close>).
\<close>

fun minLen :: "re \<Rightarrow> nat" where
  "minLen (Lit w) = length w"
| "minLen (Cls c) = 1"
| "minLen (Star c) = 0"
| "minLen (Plus c) = 1"
| "minLen (Opt a) = 0"
| "minLen (Cat a b) = minLen a + minLen b"
| "minLen (Alt a b) = min (minLen a) (minLen b)"
| "minLen (Grp n a) = minLen a"
| "minLen Bol = 0"
| "minLen Eol = 0"
| "minLen EndOfInput = 0"

fun clsWithin :: "cls \<Rightarrow> string \<Rightarrow> bool" where
  "clsWithin (AnyOf t) q = (set t \<subseteq> set q)"
| "clsWithin c q = False"

fun minCount :: "string \<Rightarrow> re \<Rightarrow> nat" where
  "minCount q (Lit w) = length (filter (\<lambda>x. x \<in> set q) w)"
| "minCount q (Cls c) = (if clsWithin c q then 1 else 0)"
| "minCount q (Star c) = 0"
| "minCount q (Plus c) = (if clsWithin c q then 1 else 0)"
| "minCount q (Opt a) = 0"
| "minCount q (Cat a b) = minCount q a + minCount q b"
| "minCount q (Alt a b) = min (minCount q a) (minCount q b)"
| "minCount q (Grp n a) = minCount q a"
| "minCount q Bol = 0"
| "minCount q Eol = 0"
| "minCount q EndOfInput = 0"

fun maxRun :: "cls \<Rightarrow> cursor \<Rightarrow> cursor" where
  "maxRun c (p, []) = (p, [])"
| "maxRun c (p, x # r) = (if inCls c x then maxRun c (Some x, r) else (p, x # r))"



definition prevOf :: "char option \<Rightarrow> string \<Rightarrow> char option" where
  "prevOf p u = (if u = [] then p else Some (last u))"

definition afterImportNamed :: re where
  \<comment> \<open>\<open>namedImportRegex\<close> after its keyword\<close>
  "afterImportNamed =
     seq [Star WS, Lit ''{'', Grp 1 (Plus (NoneOf ''}'')), Lit ''}'', Star WS,
          Lit ''from'', Star WS, Cls (AnyOf [sq, dq]), Grp 2 (Plus (NoneOf [sq, dq])),
          Cls (AnyOf [sq, dq])]"

definition afterImportDefault :: re where
  \<comment> \<open>\<open>defaultImportRegex\<close> after its keyword\<close>
  "afterImportDefault =
     seq [Plus WS, Grp 1 (Plus WordCh),
          Opt (seq [Star WS, Lit '','', Star WS, Lit ''{'', Star (NoneOf ''}''), Lit ''}'']),
          Plus WS, Lit ''from'', Star WS, Cls (AnyOf [sq, dq]), Grp 2 (Plus (NoneOf [sq, dq])),
          Cls (AnyOf [sq, dq])]"


text \<open>Groups that take part in every match of a pattern.\<close>

fun mustCapture :: "nat \<Rightarrow> re \<Rightarrow> bool" where
  "mustCapture n (Grp m a) = (m = n \<or> mustCapture n a)"
| "mustCapture n (Cat a b) = (mustCapture n a \<or> mustCapture n b)"
| "mustCapture n (Alt a b) = (mustCapture n a \<and> mustCapture n b)"
| "mustCapture n a = False"

section \<open>Lemmas\<close>

subsection \<open>Path resolution and the extent of a declaration\<close>

lemma tryExtensions_find:
  "tryExtensions readFile base exts =
     (case find (\<lambda>p. readFile p \<noteq> None) (map ((@) base) exts) of Some p \<Rightarrow> p | None \<Rightarrow> base)"
  by (induction exts) (auto split: option.splits)

lemma indexOfAux_blank:
  "(case indexOfAux [nl, nl] s i of None \<Rightarrow> s | Some j \<Rightarrow> take (j - i) s) = upToBlankLine s \<and>
   (\<forall>j. indexOfAux [nl, nl] s i = Some j \<longrightarrow> i \<le> j)"
proof (induction s arbitrary: i rule: upToBlankLine.induct)
  case 1
  then show ?case by simp
next
  case (2 x)
  then show ?case by simp
next
  case (3 x y r)
  show ?case
  proof (cases "x = nl \<and> y = nl")
    case True
    then show ?thesis by simp
  next
    case False
    then have step: "indexOfAux [nl, nl] (x # y # r) i = indexOfAux [nl, nl] (y # r) (Suc i)"
      by auto
    from 3 [OF False, of "Suc i"]
    have A: "(case indexOfAux [nl, nl] (y # r) (Suc i) of None \<Rightarrow> y # r
               | Some j \<Rightarrow> take (j - Suc i) (y # r)) = upToBlankLine (y # r)"
      and B: "\<forall>j. indexOfAux [nl, nl] (y # r) (Suc i) = Some j \<longrightarrow> Suc i \<le> j"
      by blast+
    show ?thesis
    proof (cases "indexOfAux [nl, nl] (y # r) (Suc i)")
      case None
      with A False show ?thesis unfolding step by auto
    next
      case (Some j)
      with B have le: "Suc i \<le> j" by blast
      then have "j - i = Suc (j - Suc i)" by simp
      with A Some False le show ?thesis unfolding step by auto
    qed
  qed
qed

lemma declCode_upToBlankLine:
  assumes "i \<le> length content"
  shows "slice content i (case indexOf content [nl, nl] i of None \<Rightarrow> length content | Some j \<Rightarrow> j)
           = upToBlankLine (drop i content)"
proof -
  from indexOfAux_blank [of "drop i content" i]
  have a: "(case indexOfAux [nl, nl] (drop i content) i of None \<Rightarrow> drop i content
             | Some j \<Rightarrow> take (j - i) (drop i content)) = upToBlankLine (drop i content)"
    by simp
  show ?thesis
  proof (cases "indexOfAux [nl, nl] (drop i content) i")
    case None
    with a assms show ?thesis by (simp add: slice_def indexOf_def min_def)
  next
    case (Some j)
    with a assms show ?thesis by (simp add: slice_def indexOf_def min_def)
  qed
qed

subsection \<open>The two phases of the export extractor\<close>

lemma pushReexport_append:
  "\<exists>ys. pushReexport filePath line xs n = xs @ ys \<and> list_all fromExportList ys"
  by (simp add: pushReexport_def reexportItem_def fromExportList_def)

lemma foldl_pushReexport_append:
  "\<exists>ys. foldl (pushReexport filePath line) xs ns = xs @ ys \<and> list_all fromExportList ys"
proof (induction ns arbitrary: xs)
  case Nil
  then show ?case by simp
next
  case (Cons n ns)
  obtain ys where a: "pushReexport filePath line xs n = xs @ ys" "list_all fromExportList ys"
    using pushReexport_append by blast
  obtain zs where b: "foldl (pushReexport filePath line) (xs @ ys) ns = (xs @ ys) @ zs"
    "list_all fromExportList zs"
    using Cons.IH by blast
  from a b show ?case by (intro exI [of _ "ys @ zs"]) simp
qed

lemma reexportStep_append:
  "\<exists>ys. reexportStep content filePath xs m = xs @ ys \<and> list_all fromExportList ys"
  unfolding reexportStep_def Let_def by (rule foldl_pushReexport_append)

lemma foldl_reexportStep_append:
  "\<exists>ys. foldl (reexportStep content filePath) xs mts = xs @ ys \<and> list_all fromExportList ys"
proof (induction mts arbitrary: xs)
  case Nil
  then show ?case by simp
next
  case (Cons m mts)
  obtain ys where a: "reexportStep content filePath xs m = xs @ ys" "list_all fromExportList ys"
    using reexportStep_append by blast
  obtain zs where b: "foldl (reexportStep content filePath) (xs @ ys) mts = (xs @ ys) @ zs"
    "list_all fromExportList zs"
    using Cons.IH by blast
  from a b show ?case by (intro exI [of _ "ys @ zs"]) simp
qed

lemma extractExports_append:
  "\<exists>ys. extractExports content filePath = declItems content filePath @ ys \<and>
        list_all fromExportList ys"
  unfolding extractExports_def by (rule foldl_reexportStep_append)










lemma declItem_size:
  "e_estimatedSize (declItem content filePath ty m) =
     estimateSize (upToBlankLine (drop (matchIndex content m) content))"
proof -
  have "matchIndex content m \<le> length content" by (simp add: matchIndex_def)
  from declCode_upToBlankLine [OF this] show ?thesis
    by (simp add: declItem_def Let_def)
qed

lemma declItems_iff:
  "e \<in> set (declItems content filePath) \<longleftrightarrow>
     (\<exists>(r, ty) \<in> set patterns. \<exists>m \<in> set (execAll r (None, content)).
        e = declItem content filePath ty m)"
  by (auto simp: declItems_def)

subsection \<open>Grouping by file and totals\<close>

lemma set_uniq [simp]: "set (uniq xs) = set xs"
  by (induction xs rule: uniq.induct) auto

lemma uniq_snoc: "uniq (xs @ [x]) = (if x \<in> set xs then uniq xs else uniq xs @ [x])"
proof (induction xs rule: uniq.induct)
  case 1
  then show ?case by simp
next
  case (2 y ys)
  then show ?case by (cases "x = y") auto
qed

lemma uniq_empty_iff [simp]: "uniq xs = [] \<longleftrightarrow> xs = []"
  by (cases xs) auto

lemma fileGroup_snoc_same:
  "e_file e = k \<Longrightarrow> fileGroup imps k (exps @ [e]) = addAnalysis (fileGroup imps k exps) (analyse imps e)"
  by (simp add: fileGroup_def addAnalysis_def Let_def)

lemma fileGroup_snoc_other:
  "e_file e \<noteq> k \<Longrightarrow> fileGroup imps k (exps @ [e]) = fileGroup imps k exps"
  by (simp add: fileGroup_def)

lemma fileGroup_absent:
  "k \<notin> e_file ` set exps \<Longrightarrow>
     fileGroup imps k exps = \<lparr> f_file = k, f_exports = [], f_unusedCount = 0, f_usedCount = 0 \<rparr>"
proof -
  assume "k \<notin> e_file ` set exps"
  then have "filter (\<lambda>e. e_file e = k) exps = []" by (auto simp: filter_empty_conv)
  then show ?thesis by (simp add: fileGroup_def)
qed

lemma map_of_groups:
  "map_of (map (\<lambda>k. (k, g k)) ks) k = (if k \<in> set ks then Some (g k) else None)"
  by (induction ks) auto

lemma usageStep_groups:
  "usageStep imps (map (\<lambda>k. (k, fileGroup imps k exps)) (uniq (map e_file exps))) e =
     map (\<lambda>k. (k, fileGroup imps k (exps @ [e]))) (uniq (map e_file (exps @ [e])))"
proof (cases "e_file e \<in> e_file ` set exps")
  case True
  then have "e_file e \<in> set (uniq (map e_file exps))" by simp
  then have "map_of (map (\<lambda>k. (k, fileGroup imps k exps)) (uniq (map e_file exps))) (e_file e) \<noteq> None"
    by (simp add: map_of_groups)
  moreover have "uniq (map e_file (exps @ [e])) = uniq (map e_file exps)"
    using True by (simp add: uniq_snoc)
  ultimately show ?thesis
    by (auto simp: usageStep_def Let_def fileGroup_snoc_same fileGroup_snoc_other)
next
  case False
  then have "e_file e \<notin> set (uniq (map e_file exps))" by simp
  then have none: "map_of (map (\<lambda>k. (k, fileGroup imps k exps)) (uniq (map e_file exps))) (e_file e) = None"
    by (simp add: map_of_groups)
  have u: "uniq (map e_file (exps @ [e])) = uniq (map e_file exps) @ [e_file e]"
    using False by (simp add: uniq_snoc)
  have new: "addAnalysis \<lparr> f_file = e_file e, f_exports = [], f_unusedCount = 0, f_usedCount = 0 \<rparr>
               (analyse imps e) = fileGroup imps (e_file e) (exps @ [e])"
    using fileGroup_snoc_same [of e "e_file e" imps exps] fileGroup_absent [OF False, of imps]
    by simp
  show ?thesis
    unfolding usageStep_def Let_def none u
    using False by (auto simp: new fileGroup_snoc_other fileGroup_snoc_same)
qed

lemma fileAnalysisMap_groups:
  "fileAnalysisMap imps exps = map (\<lambda>k. (k, fileGroup imps k exps)) (uniq (map e_file exps))"
proof (induction exps rule: rev_induct)
  case Nil
  then show ?case by (simp add: fileAnalysisMap_def)
next
  case (snoc e exps)
  have "fileAnalysisMap imps (exps @ [e]) = usageStep imps (fileAnalysisMap imps exps) e"
    by (simp add: fileAnalysisMap_def)
  then show ?case by (simp only: snoc.IH usageStep_groups)
qed

lemma fileGroup_nonempty:
  "k \<in> e_file ` set exps \<Longrightarrow> f_exports (fileGroup imps k exps) \<noteq> []"
  by (auto simp: fileGroup_def filter_empty_conv)

lemma foldl_add_sum: "foldl (\<lambda>acc x. acc + w x) (a::nat) xs = a + sum_list (map w xs)"
  by (induction xs arbitrary: a) auto

lemma unusedSizes_sum:
  "unusedSizes fa =
     sum_list (map (\<lambda>an. e_estimatedSize (a_export an)) (filter a_isUnused (f_exports fa)))"
  by (simp add: unusedSizes_def foldl_add_sum)

lemma foldl_totalStep:
  "foldl totalStep (t, u, s) fas =
     (t + sum_list (map (\<lambda>fa. length (f_exports fa)) fas),
      u + sum_list (map f_unusedCount fas),
      s + sum_list (map unusedSizes fas))"
  by (induction fas arbitrary: t u s) (auto simp: totalStep_def)

lemma sum_list_insort_key:
  "sum_list (map g (insort_key f x xs)) = (g x :: nat) + sum_list (map g xs)"
  by (induction xs) auto

lemma sum_list_sort_key: "sum_list (map g (sort_key f xs)) = (sum_list (map g xs) :: nat)"
  by (induction xs) (auto simp: sum_list_insort_key)

lemma sum_groups:
  "sum_list (map (\<lambda>k. sum_list (map w (filter (\<lambda>e. f e = k) xs))) (uniq (map f xs)))
     = (sum_list (map w xs) :: nat)"
proof (induction "length xs" arbitrary: xs rule: less_induct)
  case less
  show ?case
  proof (cases xs)
    case Nil
    then show ?thesis by simp
  next
    case (Cons x ys)
    define zs where "zs = filter (\<lambda>e. f e \<noteq> f x) ys"
    have len: "length zs < length xs" by (simp add: zs_def Cons less_Suc_eq_le)
    have u: "filter (\<lambda>y. y \<noteq> f x) (map f ys) = map f zs"
      by (simp add: zs_def filter_map comp_def)
    have inner: "\<And>k. k \<in> set (uniq (map f zs)) \<Longrightarrow>
        filter (\<lambda>e. f e = k) (x # ys) = filter (\<lambda>e. f e = k) zs"
    proof -
      fix k assume "k \<in> set (uniq (map f zs))"
      then have "k \<noteq> f x" by (auto simp: zs_def)
      then show "filter (\<lambda>e. f e = k) (x # ys) = filter (\<lambda>e. f e = k) zs"
        by (auto simp: zs_def intro: filter_cong)
    qed
    have "sum_list (map (\<lambda>k. sum_list (map w (filter (\<lambda>e. f e = k) xs))) (uniq (map f xs)))
        = sum_list (map w (filter (\<lambda>e. f e = f x) (x # ys)))
          + sum_list (map (\<lambda>k. sum_list (map w (filter (\<lambda>e. f e = k) (x # ys)))) (uniq (map f zs)))"
      by (simp add: Cons u)
    also have "sum_list (map (\<lambda>k. sum_list (map w (filter (\<lambda>e. f e = k) (x # ys)))) (uniq (map f zs)))
        = sum_list (map (\<lambda>k. sum_list (map w (filter (\<lambda>e. f e = k) zs))) (uniq (map f zs)))"
      by (rule arg_cong [where f = sum_list], rule map_cong) (simp_all only: inner)
    also have "\<dots> = sum_list (map w zs)" by (rule less [OF len])
    also have "sum_list (map w (filter (\<lambda>e. f e = f x) (x # ys))) + sum_list (map w zs)
        = sum_list (map w xs)"
      unfolding zs_def Cons by (induction ys) auto
    finally show ?thesis .
  qed
qed

lemma length_as_sum: "length xs = sum_list (map (\<lambda>_. 1::nat) xs)"
  by (induction xs) auto

lemma report_files:
  "files (report imps exps) =
     sortFiles (map (\<lambda>k. fileGroup imps k exps) (uniq (map e_file exps)))"
proof -
  have "filter (\<lambda>f. 0 < length (f_exports f))
          (map (\<lambda>k. fileGroup imps k exps) (uniq (map e_file exps)))
        = map (\<lambda>k. fileGroup imps k exps) (uniq (map e_file exps))"
    by (rule filter_True) (auto simp: fileGroup_nonempty)
  then show ?thesis
    by (simp add: report_def Let_def fileAnalysisMap_groups comp_def split: prod.splits)
qed

lemma report_totals_files:
  "totalExports (report imps exps) = sum_list (map (\<lambda>fa. length (f_exports fa)) (files (report imps exps))) \<and>
   unusedExports (report imps exps) = sum_list (map f_unusedCount (files (report imps exps))) \<and>
   estimatedSavings (report imps exps) = sum_list (map unusedSizes (files (report imps exps))) \<and>
   usedExports (report imps exps) = totalExports (report imps exps) - unusedExports (report imps exps)"
  by (simp add: report_def Let_def foldl_totalStep split: prod.splits)

lemma sum_filter_if:
  "sum_list (map g (filter P xs)) = (sum_list (map (\<lambda>x. if P x then g x else 0) xs) :: nat)"
  by (induction xs) auto

lemma length_filter_sum:
  "length (filter P xs) = sum_list (map (\<lambda>x. if P x then 1 else 0::nat) xs)"
  by (induction xs) auto

lemma length_groups:
  "sum_list (map (\<lambda>k. length (filter (\<lambda>e. f e = k) xs)) (uniq (map f xs))) = length xs"
  by (simp only: length_as_sum sum_groups)

lemma a_export_analyse [simp]: "a_export (analyse imps e) = e"
  by (simp add: analyse_def Let_def)

lemma report_totalExports: "totalExports (report imps exps) = length exps"
proof -
  have "totalExports (report imps exps) =
      sum_list (map (\<lambda>k. length (filter (\<lambda>e. e_file e = k) exps)) (uniq (map e_file exps)))"
    unfolding conjunct1 [OF report_totals_files] report_files sortFiles_def sum_list_sort_key
    by (simp add: comp_def fileGroup_def)
  then show ?thesis by (simp only: length_groups)
qed

lemma report_unusedExports:
  "unusedExports (report imps exps) = length (filter (\<lambda>e. a_isUnused (analyse imps e)) exps)"
proof -
  let ?w = "\<lambda>e. if a_isUnused (analyse imps e) then 1 else 0::nat"
  have g: "\<And>k. f_unusedCount (fileGroup imps k exps) =
      sum_list (map ?w (filter (\<lambda>e. e_file e = k) exps))"
    by (simp add: fileGroup_def Let_def filter_map comp_def length_filter_sum [symmetric])
  have "unusedExports (report imps exps) =
      sum_list (map (\<lambda>k. sum_list (map ?w (filter (\<lambda>e. e_file e = k) exps))) (uniq (map e_file exps)))"
    unfolding conjunct1 [OF conjunct2 [OF report_totals_files]] report_files sortFiles_def
      sum_list_sort_key
    by (simp add: comp_def g)
  also have "\<dots> = sum_list (map ?w exps)" by (rule sum_groups)
  finally show ?thesis by (simp add: length_filter_sum)
qed

lemma report_estimatedSavings:
  "estimatedSavings (report imps exps) =
     sum_list (map e_estimatedSize (filter (\<lambda>e. a_isUnused (analyse imps e)) exps))"
proof -
  let ?w = "\<lambda>e. if a_isUnused (analyse imps e) then e_estimatedSize e else 0"
  have g: "\<And>k. unusedSizes (fileGroup imps k exps) =
      sum_list (map ?w (filter (\<lambda>e. e_file e = k) exps))"
  proof -
    fix k
    have "sum_list (map (\<lambda>an. e_estimatedSize (a_export an))
            (filter a_isUnused (map (analyse imps) (filter (\<lambda>e. e_file e = k) exps))))
          = sum_list (map ?w (filter (\<lambda>e. e_file e = k) exps))"
      by (induction exps) auto
    then show "unusedSizes (fileGroup imps k exps) =
      sum_list (map ?w (filter (\<lambda>e. e_file e = k) exps))"
      by (simp add: unusedSizes_sum fileGroup_def Let_def)
  qed
  have "estimatedSavings (report imps exps) =
      sum_list (map (\<lambda>k. sum_list (map ?w (filter (\<lambda>e. e_file e = k) exps))) (uniq (map e_file exps)))"
    unfolding conjunct1 [OF conjunct2 [OF conjunct2 [OF report_totals_files]]] report_files
      sortFiles_def sum_list_sort_key
    by (simp add: comp_def g)
  also have "\<dots> = sum_list (map ?w exps)" by (rule sum_groups)
  finally show ?thesis by (simp add: sum_filter_if)
qed

lemma uniq_nil_iff: "length (uniq xs) = 0 \<longleftrightarrow> xs = []"
  by (cases xs) auto

lemma analyse_isUnused:
  "a_isUnused (analyse imps e) \<longleftrightarrow> (\<forall>i \<in> set imps. \<not> isUsage e i)"
  by (auto simp: analyse_def Let_def uniq_nil_iff filter_empty_conv)

lemma analyse_usedIn:
  "set (a_usedIn (analyse imps e)) = i_toFile ` {i \<in> set imps. isUsage e i}"
  by (auto simp: analyse_def Let_def)

lemma set_sortFiles [simp]: "set (sortFiles fas) = set fas"
  by (simp add: sortFiles_def)

lemma report_used_sum:
  "sum_list (map f_usedCount (files (report imps exps))) =
     totalExports (report imps exps) - unusedExports (report imps exps)"
proof -
  have pt: "\<And>k. f_usedCount (fileGroup imps k exps) + f_unusedCount (fileGroup imps k exps)
      = length (f_exports (fileGroup imps k exps))"
  proof -
    fix k
    have "length (filter (\<lambda>a. \<not> a_isUnused a) (map (analyse imps) (filter (\<lambda>e. e_file e = k) exps)))
        + length (filter a_isUnused (map (analyse imps) (filter (\<lambda>e. e_file e = k) exps)))
        = length (map (analyse imps) (filter (\<lambda>e. e_file e = k) exps))"
      by (simp only: sum_length_filter_compl add.commute)
    then show "f_usedCount (fileGroup imps k exps) + f_unusedCount (fileGroup imps k exps)
      = length (f_exports (fileGroup imps k exps))"
      by (simp add: fileGroup_def Let_def)
  qed
  have "sum_list (map f_usedCount (files (report imps exps)))
        + sum_list (map f_unusedCount (files (report imps exps)))
      = sum_list (map (\<lambda>fa. length (f_exports fa)) (files (report imps exps)))"
    unfolding report_files sortFiles_def sum_list_sort_key
    by (simp add: comp_def sum_list_addf [symmetric] pt)
  then show ?thesis
    using report_totals_files [of imps exps] by simp
qed

lemma unusedSizes_concat:
  "sum_list (map unusedSizes fas) =
     sum_list (map (\<lambda>an. e_estimatedSize (a_export an))
       (filter a_isUnused (concat (map f_exports fas))))"
  by (induction fas) (auto simp: unusedSizes_sum)

lemma report_set_files:
  "set (files (report imps exps)) = (\<lambda>k. fileGroup imps k exps) ` e_file ` set exps"
  by (simp add: report_files)

subsection \<open>Unreadable files\<close>

lemma readStep_skip: "readFile f = None \<Longrightarrow> readStep readFile rootDir acc f = acc"
  by (simp add: readStep_def)

lemma foldl_readStep_readable:
  "foldl (readStep readFile rootDir) acc fileList =
     foldl (readStep readFile rootDir) acc (filter (\<lambda>f. readFile f \<noteq> None) fileList)"
  by (induction fileList arbitrary: acc) (auto simp: readStep_skip)

lemma collect_readable:
  "collect readFile rootDir fileList =
     collect readFile rootDir (filter (\<lambda>f. readFile f \<noteq> None) fileList)"
  unfolding collect_def by (rule foldl_readStep_readable)

subsection \<open>The matcher: what a match consumes, and the greedy path\<close>


lemma starRuns_split:
  "(p', r') \<in> set (starRuns c (p, r)) \<Longrightarrow> \<exists>u. r = u @ r' \<and> list_all (inCls c) u"
proof (induction r arbitrary: p)
  case Nil
  then show ?case by simp
next
  case (Cons x r)
  show ?case
  proof (cases "inCls c x")
    case True
    with Cons.prems have "(p', r') \<in> set (starRuns c (Some x, r)) \<or> (p', r') = (p, x # r)"
      by auto
    then show ?thesis
    proof
      assume "(p', r') \<in> set (starRuns c (Some x, r))"
      from Cons.IH [OF this] obtain u where "r = u @ r'" "list_all (inCls c) u" by blast
      with True show ?thesis by (intro exI [of _ "x # u"]) simp
    next
      assume "(p', r') = (p, x # r)"
      then show ?thesis by (intro exI [of _ "[]"]) simp
    qed
  next
    case False
    with Cons.prems show ?thesis by (intro exI [of _ "[]"]) simp
  qed
qed

lemma ms_split:
  "((p', r'), k') \<in> set (ms a ((p, r), k)) \<Longrightarrow>
     \<exists>u. r = u @ r' \<and> minLen a \<le> length u \<and> minCount q a \<le> length (filter (\<lambda>x. x \<in> set q) u)"
proof (induction a arbitrary: p r k p' r' k')
  case (Lit w)
  then have "take (length w) r = w" "r' = drop (length w) r" by (auto split: if_splits)
  then have "r = w @ r'" by (metis append_take_drop_id)
  then show ?case by (intro exI [of _ w]) simp
next
  case (Cls c)
  then obtain x where x: "r = x # r'" "inCls c x" by (auto split: if_splits list.splits)
  have "clsWithin c q \<Longrightarrow> x \<in> set q" using x(2) by (cases c) auto
  with x show ?case by (intro exI [of _ "[x]"]) simp
next
  case (Star c)
  then have "(p', r') \<in> set (starRuns c (p, r))" by auto
  from starRuns_split [OF this] show ?case by auto
next
  case (Plus c)
  then obtain x r0 where x: "r = x # r0" "inCls c x" "(p', r') \<in> set (starRuns c (Some x, r0))"
    by (auto split: if_splits list.splits)
  from starRuns_split [OF x(3)] obtain u where u: "r0 = u @ r'" by blast
  have "clsWithin c q \<Longrightarrow> x \<in> set q" using x(2) by (cases c) auto
  with x u show ?case by (intro exI [of _ "x # u"]) simp
next
  case (Opt a)
  from Opt.prems have "((p', r'), k') \<in> set (ms a ((p, r), k)) \<or> r' = r" by auto
  then show ?case
  proof
    assume "((p', r'), k') \<in> set (ms a ((p, r), k))"
    from Opt.IH [OF this] show ?thesis by auto
  next
    assume "r' = r"
    then show ?thesis by (intro exI [of _ "[]"]) simp
  qed
next
  case (Cat a b)
  from Cat.prems obtain p1 r1 k1 where
    m1: "((p1, r1), k1) \<in> set (ms a ((p, r), k))" and
    m2: "((p', r'), k') \<in> set (ms b ((p1, r1), k1))"
    by auto
  from Cat.IH(1) [OF m1] obtain u where u: "r = u @ r1" "minLen a \<le> length u"
    "minCount q a \<le> length (filter (\<lambda>x. x \<in> set q) u)" by blast
  from Cat.IH(2) [OF m2] obtain v where v: "r1 = v @ r'" "minLen b \<le> length v"
    "minCount q b \<le> length (filter (\<lambda>x. x \<in> set q) v)" by blast
  from u v show ?case by (intro exI [of _ "u @ v"]) simp
next
  case (Alt a b)
  from Alt.prems have "((p', r'), k') \<in> set (ms a ((p, r), k)) \<or> ((p', r'), k') \<in> set (ms b ((p, r), k))"
    by auto
  then show ?case
  proof
    assume "((p', r'), k') \<in> set (ms a ((p, r), k))"
    from Alt.IH(1) [OF this] show ?thesis by auto
  next
    assume "((p', r'), k') \<in> set (ms b ((p, r), k))"
    from Alt.IH(2) [OF this] show ?thesis by auto
  qed
next
  case (Grp n a)
  from Grp.prems obtain k1 where "((p', r'), k1) \<in> set (ms a ((p, r), k))"
    by auto
  from Grp.IH [OF this] show ?case by simp
next
  case Bol
  then have "r' = r" by (auto split: if_splits)
  then show ?case by (intro exI [of _ "[]"]) simp
next
  case Eol
  then have "r' = r" by (auto split: if_splits)
  then show ?case by (intro exI [of _ "[]"]) simp
next
  case EndOfInput
  then have "r' = r" by (auto split: if_splits)
  then show ?case by (intro exI [of _ "[]"]) simp
qed

lemma ms_too_few:
  assumes "length (filter (\<lambda>x. x \<in> set q) r) < minCount q a"
  shows "ms a ((p, r), k) = []"
proof (rule ccontr)
  assume "ms a ((p, r), k) \<noteq> []"
  then obtain p' r' k' where "((p', r'), k') \<in> set (ms a ((p, r), k))"
    by (cases "ms a ((p, r), k)") auto
  from ms_split [OF this, of q] obtain u where "r = u @ r'"
    "minCount q a \<le> length (filter (\<lambda>x. x \<in> set q) u)" by blast
  with assms show False by simp
qed




subsection \<open>Characters, searching, and failure at a position\<close>

lemma prevOf_simps [simp]:
  "prevOf p [] = p" "prevOf p (x # u) = prevOf (Some x) u" "prevOf p (u @ [x]) = Some x"
  by (auto simp: prevOf_def)

lemma isWord_not_isSpace: "isWord x \<Longrightarrow> \<not> isSpace x"
  by (auto simp: isWord_def isSpace_def Let_def)


lemma isWord_not_punct:
  "isWord x \<Longrightarrow> x \<notin> set [CHR ''{'', CHR ''}'', CHR '','', CHR '' '', CHR ''*'', CHR '';'', sq, dq]"
  by (auto simp: isWord_def Let_def)


lemma maxRun_all:
  "list_all (inCls c) u \<Longrightarrow> maxRun c (p, u) = (prevOf p u, [])"
  by (induction u arbitrary: p) auto

lemma search_skip:
  assumes "\<And>u1 x u2. u = u1 @ x # u2 \<Longrightarrow> matchAt a (prevOf p u1, x # u2 @ v) = None"
  shows "search a (p, u @ v) = search a (prevOf p u, v)"
  using assms
proof (induction u arbitrary: p)
  case Nil
  then show ?case by simp
next
  case (Cons x u)
  from Cons.prems [of "[]" x u] have m: "matchAt a (p, x # u @ v) = None" by simp
  have "search a (Some x, u @ v) = search a (prevOf (Some x) u, v)"
  proof (rule Cons.IH)
    fix u1 y u2 assume "u = u1 @ y # u2"
    then have "x # u = (x # u1) @ y # u2" by simp
    from Cons.prems [OF this] show "matchAt a (prevOf (Some x) u1, y # u2 @ v) = None" by simp
  qed
  with m show ?case by simp
qed

lemma search_Some_matchAt:
  "search a cur = Some (s, e, k) \<Longrightarrow> matchAt a s = Some (e, k)"
proof (induction a cur rule: search.induct)
  case (1 r p)
  then show ?case by (auto split: option.splits)
next
  case (2 r p x xs)
  then show ?case by (cases "matchAt r (p, x # xs)") auto
qed




lemma execAll_none:
  assumes "search a cur = None"
  shows "execAll a cur = []"
  using assms by (simp add: execAll.simps)

lemma take_lit_append:
  assumes "take (length w) (u @ y # v) = w" and "y \<notin> set w"
  shows "\<exists>u'. u = w @ u'"
proof -
  have "length w \<le> length u"
  proof (rule ccontr)
    assume "\<not> length w \<le> length u"
    then have lt: "length u < length w" by simp
    then have "take (length w) (u @ y # v) ! length u = (u @ y # v) ! length u"
      by (rule nth_take)
    then have "take (length w) (u @ y # v) ! length u = y" by simp
    with assms(1) lt have "y \<in> set w" by (metis nth_mem)
    with assms(2) show False by simp
  qed
  with assms(1) have "take (length w) u = w" by simp
  then have "u = w @ drop (length w) u" by (metis append_take_drop_id)
  then show ?thesis by blast
qed





subsection \<open>The import patterns on one statement\<close>

lemma namedImportRegex_split: "namedImportRegex = Cat (Lit ''import'') afterImportNamed"
  by (simp add: namedImportRegex_def afterImportNamed_def)

lemma minCount_named: "minCount [sq, dq] namedImportRegex = 2"
  by (simp add: namedImportRegex_def)

lemma minCount_default: "minCount [sq, dq] defaultImportRegex = 2"
  by (simp add: defaultImportRegex_def)



lemma import_needs_quotes:
  assumes "a = namedImportRegex \<or> a = defaultImportRegex"
    and "length (filter (\<lambda>x. x \<in> set [sq, dq]) r) < 2"
  shows "matchAt a (p, r) = None"
proof -
  from assms(1) have "minCount [sq, dq] a = 2" using minCount_named minCount_default by auto
  with assms(2) have "ms a ((p, r), []) = []" by (intro ms_too_few [of "[sq, dq]"]) simp
  then show ?thesis by (simp add: matchAt_def)
qed

lemma named_after_import_stop:
  assumes "\<not> isSpace y" and "y \<noteq> CHR ''{''"
  shows "ms afterImportNamed ((p, y # v), k) = []"
  using assms by (simp add: afterImportNamed_def)

lemma lit_cat_fail: "take (length w) r \<noteq> w \<Longrightarrow> matchAt (Cat (Lit w) X) (p, r) = None"
  by (simp add: matchAt_def)

lemma lit_cat_step:
  "w \<noteq> [] \<Longrightarrow> ms X ((Some (last w), r'), []) = [] \<Longrightarrow> matchAt (Cat (Lit w) X) (p, w @ r') = None"
  by (simp add: matchAt_def)

lemma named_in_word:
  assumes w: "list_all isWord (x # u2)"
    and y: "\<not> isWord y" "\<not> isSpace y" "y \<noteq> CHR ''{''"
  shows "matchAt namedImportRegex (q, x # u2 @ y # v) = None"
proof -
  define r where "r = (x # u2) @ y # v"
  have "matchAt namedImportRegex (q, r) = None"
  proof (cases "take (length ''import'') r = ''import''")
    case False
    then show ?thesis unfolding namedImportRegex_split by (rule lit_cat_fail)
  next
    case True
    have "y \<notin> set ''import''" using y(1) by (auto simp: isWord_def Let_def)
    from take_lit_append [OF True [unfolded r_def] this]
    obtain u' where u': "x # u2 = ''import'' @ u'" by blast
    have "ms afterImportNamed ((Some (last ''import''), u' @ y # v), []) = []"
    proof (cases u')
      case Nil
      with y show ?thesis by (simp add: named_after_import_stop)
    next
      case (Cons z u'')
      with w u' have "isWord z" by auto
      then have "\<not> isSpace z" "z \<noteq> CHR ''{''"
        using isWord_not_isSpace isWord_not_punct by auto
      with Cons show ?thesis by (simp add: named_after_import_stop)
    qed
    then have "matchAt namedImportRegex (q, ''import'' @ u' @ y # v) = None"
      unfolding namedImportRegex_split by (intro lit_cat_step) simp_all
    moreover have "r = ''import'' @ u' @ y # v" unfolding r_def u' by simp
    ultimately show ?thesis by simp
  qed
  then show ?thesis by (simp add: r_def)
qed


lemma search_Cons_fail:
  "matchAt a (p, x # xs) = None \<Longrightarrow> search a (p, x # xs) = search a (Some x, xs)"
  by simp

lemma search_Nil_fail: "matchAt a (p, []) = None \<Longrightarrow> search a (p, []) = None"
  by simp

lemma search_few_quotes:
  assumes "a = namedImportRegex \<or> a = defaultImportRegex"
  shows "length (filter (\<lambda>x. x \<in> set [sq, dq]) r) < 2 \<Longrightarrow> search a (p, r) = None"
proof (induction r arbitrary: p)
  case Nil
  with import_needs_quotes [OF assms] show ?case by simp
next
  case (Cons x r)
  from Cons.prems have "length (filter (\<lambda>x. x \<in> set [sq, dq]) r) < 2"
    by (auto split: if_splits)
  from Cons.IH [OF this] import_needs_quotes [OF assms Cons.prems] show ?case by simp
qed

lemma search_hit: "matchAt a (p, r) = Some (e, k) \<Longrightarrow> search a (p, r) = Some ((p, r), e, k)"
  by (cases r) auto

lemma getLineNumber_start [simp]: "getLineNumber content 0 = 1"
  by (simp add: getLineNumber_def)

lemma defaultImportRegex_split: "defaultImportRegex = Cat (Lit ''import'') afterImportDefault"
  by (simp add: defaultImportRegex_def afterImportDefault_def)

lemma default_after_import_stop:
  assumes "\<not> isSpace y"
  shows "ms afterImportDefault ((p, y # v), k) = []"
  using assms by (simp add: afterImportDefault_def)

lemma import_in_word:
  assumes a: "a = Cat (Lit ''import'') X"
    and stop: "\<And>z t p. isWord z \<Longrightarrow> ms X ((p, z # t), []) = []"
    and w: "list_all isWord (x # u2)"
    and y: "\<not> isWord y" "ms X ((Some CHR ''t'', y # v), []) = []"
  shows "matchAt a (q, x # u2 @ y # v) = None"
proof -
  define r where "r = (x # u2) @ y # v"
  have "matchAt a (q, r) = None"
  proof (cases "take (length ''import'') r = ''import''")
    case False
    then show ?thesis unfolding a by (rule lit_cat_fail)
  next
    case True
    have "y \<notin> set ''import''" using y(1) by (auto simp: isWord_def Let_def)
    from take_lit_append [OF True [unfolded r_def] this]
    obtain u' where u': "x # u2 = ''import'' @ u'" by blast
    have "ms X ((Some (last ''import''), u' @ y # v), []) = []"
    proof (cases u')
      case Nil
      with y show ?thesis by simp
    next
      case (Cons z u'')
      with w u' have "isWord z" by auto
      from stop [OF this] Cons show ?thesis by simp
    qed
    then have "matchAt a (q, ''import'' @ u' @ y # v) = None"
      unfolding a by (intro lit_cat_step) simp_all
    moreover have "r = ''import'' @ u' @ y # v" unfolding r_def u' by simp
    ultimately show ?thesis by simp
  qed
  then show ?thesis by (simp add: r_def)
qed

lemma named_stop_word: "isWord z \<Longrightarrow> ms afterImportNamed ((p, z # t), []) = []"
  using isWord_not_isSpace [of z] isWord_not_punct [of z]
  by (intro named_after_import_stop) auto

lemma default_stop_word: "isWord z \<Longrightarrow> ms afterImportDefault ((p, z # t), []) = []"
  using isWord_not_isSpace [of z] by (intro default_after_import_stop) auto






lemma namespace_named_none:
  assumes n: "list_all isWord n" and s: "sq \<notin> set spec" "dq \<notin> set spec"
  shows "search namedImportRegex (None, namespaceImport n spec) = None"
proof -
  let ?t2 = "spec @ [sq]"
  let ?t1 = "'' from '' @ [sq] @ ?t2"
  have c: "namespaceImport n spec = ''import * as '' @ n @ ?t1"
    by (simp add: namespaceImport_def)
  have 1: "search namedImportRegex (None, ''import * as '' @ n @ ?t1)
      = search namedImportRegex (Some CHR '' '', n @ ?t1)"
    by (simp del: search.simps add: search_Cons_fail matchAt_def namedImportRegex_def isSpace_def isWord_def)
  have 2: "search namedImportRegex (Some CHR '' '', n @ ?t1)
      = search namedImportRegex (prevOf (Some CHR '' '') n, ?t1)"
  proof (rule search_skip)
    fix u1 y u2 assume "n = u1 @ y # u2"
    with n have w: "list_all isWord (y # u2)" by simp
    have "matchAt namedImportRegex (prevOf (Some CHR '' '') u1, y # u2 @ CHR '' '' # ''from '' @ [sq] @ ?t2) = None"
      by (rule import_in_word [OF namedImportRegex_split named_stop_word w])
         (simp_all add: isWord_def isSpace_def afterImportNamed_def)
    then show "matchAt namedImportRegex (prevOf (Some CHR '' '') u1, y # u2 @ ?t1) = None"
      by simp
  qed
  have 3: "search namedImportRegex (prevOf (Some CHR '' '') n, ?t1)
      = search namedImportRegex (Some sq, ?t2)"
    by (simp del: search.simps add: search_Cons_fail matchAt_def namedImportRegex_def isSpace_def isWord_def)
  have "filter (\<lambda>x. x \<in> set [sq, dq]) spec = []"
    using s by (auto simp: filter_empty_conv)
  then have 4: "search namedImportRegex (Some sq, ?t2) = None"
    by (intro search_few_quotes) simp_all
  show ?thesis unfolding c 1 2 3 4 ..
qed

lemma namespace_default_none:
  assumes n: "list_all isWord n" and s: "sq \<notin> set spec" "dq \<notin> set spec"
  shows "search defaultImportRegex (None, namespaceImport n spec) = None"
proof -
  let ?t2 = "spec @ [sq]"
  let ?t1 = "'' from '' @ [sq] @ ?t2"
  have c: "namespaceImport n spec = ''import * as '' @ n @ ?t1"
    by (simp add: namespaceImport_def)
  have 1: "search defaultImportRegex (None, ''import * as '' @ n @ ?t1)
      = search defaultImportRegex (Some CHR '' '', n @ ?t1)"
    by (simp del: search.simps add: search_Cons_fail matchAt_def defaultImportRegex_def isSpace_def isWord_def)
  have 2: "search defaultImportRegex (Some CHR '' '', n @ ?t1)
      = search defaultImportRegex (prevOf (Some CHR '' '') n, ?t1)"
  proof (rule search_skip)
    fix u1 y u2 assume "n = u1 @ y # u2"
    with n have w: "list_all isWord (y # u2)" by simp
    have "matchAt defaultImportRegex (prevOf (Some CHR '' '') u1, y # u2 @ CHR '' '' # ''from '' @ [sq] @ ?t2) = None"
      by (rule import_in_word [OF defaultImportRegex_split default_stop_word w])
         (simp_all add: isWord_def isSpace_def afterImportDefault_def)
    then show "matchAt defaultImportRegex (prevOf (Some CHR '' '') u1, y # u2 @ ?t1) = None"
      by simp
  qed
  have 3: "search defaultImportRegex (prevOf (Some CHR '' '') n, ?t1)
      = search defaultImportRegex (Some sq, ?t2)"
    by (simp del: search.simps add: search_Cons_fail matchAt_def defaultImportRegex_def isSpace_def isWord_def)
  have "filter (\<lambda>x. x \<in> set [sq, dq]) spec = []"
    using s by (auto simp: filter_empty_conv)
  then have 4: "search defaultImportRegex (Some sq, ?t2) = None"
    by (intro search_few_quotes) simp_all
  show ?thesis unfolding c 1 2 3 4 ..
qed

lemma namespace_import_no_reference:
  assumes "list_all isWord n" and "sq \<notin> set spec" and "dq \<notin> set spec"
  shows "extractImports readFile (namespaceImport n spec) filePath rootDir = []"
proof -
  have named: "execAll namedImportRegex (None, namespaceImport n spec) = []"
    using assms by (intro execAll_none namespace_named_none)
  have dflt: "execAll defaultImportRegex (None, namespaceImport n spec) = []"
    using assms by (intro execAll_none namespace_default_none)
  show ?thesis by (simp add: extractImports_def named dflt)
qed

subsection \<open>Stripping the source extension\<close>

lemma sourceExtensions_dotFirst: "e \<in> set sourceExtensions \<Longrightarrow> dotFirst e"
  by (auto simp: sourceExtensions_def dotFirst_def)

lemma dotFirst_suffix:
  assumes "dotFirst e" and "dotFirst e'" and "u @ e = e'"
  shows "u = []"
proof (rule ccontr)
  assume "u \<noteq> []"
  then obtain x u' where u: "u = x # u'" by (cases u) auto
  from assms(1) obtain t where e: "e = CHR ''.'' # t" unfolding dotFirst_def by blast
  from assms(2) obtain t' where e': "e' = CHR ''.'' # t'" "CHR ''.'' \<notin> set t'"
    unfolding dotFirst_def by blast
  from assms(3) u e e' have "t' = u' @ CHR ''.'' # t" by simp
  with e'(2) show False by simp
qed

lemma ms_Lit_iff:
  "(e \<in> set (ms (Lit w) ((p, r), k))) =
     (\<exists>r'. r = w @ r' \<and> e = ((if w = [] then p else Some (last w), r'), k))"
proof
  assume "e \<in> set (ms (Lit w) ((p, r), k))"
  then have t: "take (length w) r = w"
    and e: "e = ((if w = [] then p else Some (last w), drop (length w) r), k)"
    by (auto split: if_splits)
  from t have "r = w @ drop (length w) r" by (metis append_take_drop_id)
  with e show "\<exists>r'. r = w @ r' \<and> e = ((if w = [] then p else Some (last w), r'), k)" by blast
next
  assume "\<exists>r'. r = w @ r' \<and> e = ((if w = [] then p else Some (last w), r'), k)"
  then show "e \<in> set (ms (Lit w) ((p, r), k))" by auto
qed

lemma stripExtRegex_matches:
  assumes "e \<in> set (ms stripExtRegex ((p, r), k))"
  shows "r \<in> set sourceExtensions \<and> snd (fst e) = []"
  using assms
  by (auto simp del: ms.simps(1) simp add: ms_Lit_iff stripExtRegex_def sourceExtensions_def
      split: if_splits)

lemma stripExtRegex_hit:
  assumes "ext \<in> set sourceExtensions"
  shows "\<exists>pe k. matchAt stripExtRegex (p, ext) = Some ((pe, []), k)"
  using assms by (auto simp: sourceExtensions_def matchAt_def stripExtRegex_def)

lemma stripExt_suffix:
  assumes "ext \<in> set sourceExtensions"
  shows "stripExt (body @ ext) = body"
proof -
  have skip: "search stripExtRegex (None, body @ ext) = search stripExtRegex (prevOf None body, ext)"
  proof (rule search_skip)
    fix u1 x u2 assume "body = u1 @ x # u2"
    show "matchAt stripExtRegex (prevOf None u1, x # u2 @ ext) = None"
    proof (rule ccontr)
      assume "matchAt stripExtRegex (prevOf None u1, x # u2 @ ext) \<noteq> None"
      then obtain m where "m \<in> set (ms stripExtRegex ((prevOf None u1, x # u2 @ ext), []))"
        by (auto simp: matchAt_def split: list.splits)
      from stripExtRegex_matches [OF this] have "(x # u2) @ ext \<in> set sourceExtensions" by simp
      from dotFirst_suffix [OF sourceExtensions_dotFirst [OF assms]
          sourceExtensions_dotFirst [OF this] refl]
      show False by simp
    qed
  qed
  from stripExtRegex_hit [OF assms, of "prevOf None body"] obtain pe k where
    "matchAt stripExtRegex (prevOf None body, ext) = Some ((pe, []), k)" by blast
  from search_hit [OF this] skip
  have "search stripExtRegex (None, body @ ext) = Some ((prevOf None body, ext), (pe, []), k)"
    by simp
  then show ?thesis by (simp add: stripExt_def)
qed

lemma stripExt_none:
  assumes "\<And>ext. ext \<in> set sourceExtensions \<Longrightarrow> \<not> endsWith s ext"
  shows "stripExt s = s"
proof -
  have fail: "\<And>p u1 r. s = u1 @ r \<Longrightarrow> matchAt stripExtRegex (p, r) = None"
  proof (rule ccontr)
    fix p u1 r assume s: "s = u1 @ r" and "matchAt stripExtRegex (p, r) \<noteq> None"
    then obtain m where "m \<in> set (ms stripExtRegex ((p, r), []))"
      by (auto simp: matchAt_def split: list.splits)
    from stripExtRegex_matches [OF this] have "r \<in> set sourceExtensions" by simp
    moreover have "endsWith s r" by (simp add: endsWith_def s)
    ultimately show False using assms by blast
  qed
  have "search stripExtRegex (None, s @ []) = search stripExtRegex (prevOf None s, [])"
    by (rule search_skip) (simp add: fail)
  also have "\<dots> = None" using fail [of s "[]"] by simp
  finally show ?thesis by (simp add: stripExt_def)
qed

lemma stripExt_spec: "stripExt s = stripKnownExtension s"
proof (cases "find (\<lambda>ext. endsWith s ext) sourceExtensions")
  case None
  then have "\<And>ext. ext \<in> set sourceExtensions \<Longrightarrow> \<not> endsWith s ext"
    by (auto simp: find_None_iff)
  from stripExt_none [OF this] None show ?thesis by (simp add: stripKnownExtension_def)
next
  case (Some ext)
  then have e: "ext \<in> set sourceExtensions" "endsWith s ext"
    by (auto simp: find_Some_iff)
  from e(2) have "s = take (length s - length ext) s @ ext"
    unfolding endsWith_def by (metis append_take_drop_id)
  with stripExt_suffix [OF e(1), of "take (length s - length ext) s"] Some show ?thesis
    by (simp add: stripKnownExtension_def)
qed

lemma isSameFile_spec:
  "isSameFile imp exp \<longleftrightarrow>
     stripKnownExtension (i_fromFile imp) = stripKnownExtension (e_file exp)"
  by (auto simp: isSameFile_def stripExt_spec)

lemma isUsage_default:
  assumes "e_isDefault exp"
  shows "isUsage exp imp \<longleftrightarrow>
     i_isDefault imp \<and>
     stripKnownExtension (i_fromFile imp) = stripKnownExtension (e_file exp)"
  using assms by (auto simp: isUsage_def isSameFile_spec)

subsection \<open>Trimming and splitting bindings\<close>

















subsection \<open>Export lists and import lists\<close>














subsection \<open>Progress of the loops and defined captures\<close>

lemma splitLoop_nonempty: "splitLoop r acc cur \<noteq> []"
proof (induction r acc cur rule: splitLoop.induct)
  case (1 r acc p)
  then show ?case by simp
next
  case (2 r acc p x xs)
  show ?case
  proof (cases "matchAt r (p, x # xs)")
    case None
    with 2 show ?thesis by simp
  next
    case (Some m)
    obtain pe re k where m: "m = ((pe, re), k)" by (cases m) auto
    from matchAt_length [of r p "x # xs" pe re k] Some m
    have "length re \<le> length (x # xs)" by simp
    with 2 Some m show ?thesis by auto
  qed
qed

lemma split_asRegex_nonempty: "split s asRegex \<noteq> []"
  by (simp add: split_def splitLoop_nonempty matchAt_def asRegex_def)

lemma patterns_progress:
  "(\<forall>(r, ty) \<in> set patterns. 0 < minLen r) \<and> 0 < minLen namedExportRegex \<and>
   0 < minLen namedImportRegex \<and> 0 < minLen defaultImportRegex"
  by (simp add: patterns_def reFunction_def reAsyncFunction_def reClass_def reConst_def reLet_def
      reVar_def reType_def reInterface_def reEnum_def reDefaultDecl_def reDefaultName_def
      namedExportRegex_def namedImportRegex_def defaultImportRegex_def)

lemma ms_caps_grow:
  "((p', r'), k') \<in> set (ms a ((p, r), k)) \<Longrightarrow> \<exists>pre. k' = pre @ k"
proof (induction a arbitrary: p r k p' r' k')
  case (Cat a b)
  from Cat.prems obtain p1 r1 k1 where
    m1: "((p1, r1), k1) \<in> set (ms a ((p, r), k))" and
    m2: "((p', r'), k') \<in> set (ms b ((p1, r1), k1))"
    by auto
  from Cat.IH(1) [OF m1] Cat.IH(2) [OF m2] show ?case by auto
next
  case (Grp n a)
  from Grp.prems obtain k1 where "((p', r'), k1) \<in> set (ms a ((p, r), k))"
    and "k' = (n, take (length r - length r') r) # k1"
    by auto
  with Grp.IH [of p' r' k1 p r k] show ?case by auto
qed (auto split: if_splits list.splits)

lemma ms_captures:
  "((p', r'), k') \<in> set (ms a ((p, r), k)) \<Longrightarrow> mustCapture n a \<Longrightarrow> capture k' n \<noteq> None"
proof (induction a arbitrary: p r k p' r' k')
  case (Cat a b)
  from Cat.prems obtain p1 r1 k1 where
    m1: "((p1, r1), k1) \<in> set (ms a ((p, r), k))" and
    m2: "((p', r'), k') \<in> set (ms b ((p1, r1), k1))"
    by auto
  show ?case
  proof (cases "mustCapture n b")
    case True
    from Cat.IH(2) [OF m2 True] show ?thesis .
  next
    case False
    with Cat.prems(2) have "mustCapture n a" by simp
    from Cat.IH(1) [OF m1 this] have "capture k1 n \<noteq> None" .
    moreover from ms_caps_grow [OF m2] obtain pre where "k' = pre @ k1" by blast
    ultimately show ?thesis by (auto simp: capture_def)
  qed
next
  case (Alt a b)
  then show ?case by auto
next
  case (Grp m a)
  from Grp.prems obtain k1 where k1: "((p', r'), k1) \<in> set (ms a ((p, r), k))"
    "k' = (m, take (length r - length r') r) # k1"
    by auto
  show ?case
  proof (cases "m = n")
    case True
    with k1 show ?thesis by (simp add: capture_def)
  next
    case False
    with Grp.prems(2) have "mustCapture n a" by simp
    from Grp.IH [OF k1(1) this] k1(2) False show ?thesis by (simp add: capture_def)
  qed
qed simp_all

lemma search_Some_ms:
  "search a cur = Some (s, e, k) \<Longrightarrow> (e, k) \<in> set (ms a (s, []))"
  by (drule search_Some_matchAt) (auto simp: matchAt_def split: list.splits)

lemma execAll_ms:
  "m \<in> set (execAll a cur) \<Longrightarrow> (fst (snd m), snd (snd m)) \<in> set (ms a (fst m, []))"
proof (induction a cur rule: execAll.induct)
  case (1 r cur)
  show ?case
  proof (cases "search r cur")
    case None
    with 1(2) show ?thesis by (simp add: execAll.simps)
  next
    case (Some x)
    obtain s e k where x: "x = (s, e, k)" by (cases x) auto
    show ?thesis
    proof (cases "length (snd e) < length (snd s)")
      case True
      with 1(2) Some x have "m = (s, e, k) \<or> m \<in> set (execAll r e)"
        by (subst (asm) execAll.simps) auto
      then show ?thesis
      proof
        assume "m = (s, e, k)"
        with search_Some_ms [of r cur s e k] Some x show ?thesis by simp
      next
        assume "m \<in> set (execAll r e)"
        with 1(1) [OF Some x [symmetric] refl True] show ?thesis by simp
      qed
    next
      case False
      with 1(2) Some x show ?thesis by (subst (asm) execAll.simps) auto
    qed
  qed
qed

lemma captures_defined:
  "(m \<in> set (execAll namedExportRegex cur) \<longrightarrow> capture (snd (snd m)) 1 \<noteq> None) \<and>
   (m \<in> set (execAll namedImportRegex cur) \<longrightarrow>
      capture (snd (snd m)) 1 \<noteq> None \<and> capture (snd (snd m)) 2 \<noteq> None) \<and>
   (m \<in> set (execAll defaultImportRegex cur) \<longrightarrow> capture (snd (snd m)) 2 \<noteq> None)"
proof -
  obtain p r e k where m: "m = ((p, r), e, k)" by (cases m) auto
  obtain p' r' where e: "e = (p', r')" by (cases e) auto
  have a: "mustCapture 1 namedExportRegex" "mustCapture 1 namedImportRegex"
    "mustCapture 2 namedImportRegex" "mustCapture 2 defaultImportRegex"
    by (simp_all add: namedExportRegex_def namedImportRegex_def defaultImportRegex_def)
  show ?thesis
    using execAll_ms [of m _ cur] ms_captures [of p' r' k _ p r "[]"] a
    by (auto simp: m e)
qed

section \<open>The claims\<close>

subsection \<open>C1\<close>

text \<open>
  C1. A namespace import of an intra-project module is to mark every export of that
  module as used. The code does not: in the project where \<open>/p/b.ts\<close> is
  \<open>import * as ns from './a'\<close> and \<open>/p/a.ts\<close> is \<open>export function helper() {}\<close>, the
  import extractor records no reference for \<open>/p/b.ts\<close> and the scan reports \<open>helper\<close> as
  unused, with no consumer. The pattern for namespace imports is declared in
  \<open>extractImports\<close> but never run; only the named and the default pattern are. Lemma
  \<open>namespace_import_no_reference\<close> shows that no statement \<open>import * as n from 'spec'\<close>
  (\<open>n\<close> an identifier, \<open>spec\<close> without quotes) yields a reference.
\<close>

theorem namespace_import_export_reported_unused:
  "nsFs ''/p/b.ts'' = Some (''import * as ns from '' @ [sq] @ ''./a'' @ [sq]) \<and>
   extractImports nsFs (''import * as ns from '' @ [sq] @ ''./a'' @ [sq]) ''/p/b.ts'' ''/p'' = [] \<and>
   analyzeExports (globOf ''/p'' [''/p/a.ts'', ''/p/b.ts'']) nsFs ''/p'' False [] =
     Inr \<lparr>files =
            [\<lparr>f_file = ''/p/a.ts'',
              f_exports =
                [\<lparr>a_export =
                    \<lparr>e_name = ''helper'', e_type = T_function, e_file = ''/p/a.ts'',
                     e_line = 1, e_isDefault = False, e_estimatedSize = 16\<rparr>,
                  a_usageCount = 0, a_usedIn = [], a_isUnused = True\<rparr>],
              f_unusedCount = 1, f_usedCount = 0\<rparr>],
          totalExports = 1, unusedExports = 1, usedExports = 0, estimatedSavings = 16\<rparr>"
  by code_simp

subsection \<open>C2\<close>

text \<open>
  C2. The claim: the list returned by \<open>extractExports\<close> never holds two entries with the same
  name that are both not default exports. The loop over the declaration patterns pushes
  every match; only the \<open>export { ... }\<close> branch looks for an earlier entry of the same
  name (lemma \<open>reexports_fresh_names\<close>: what that branch adds never repeats a name). On a
  function with two overload signatures the extractor returns the name three times.
\<close>

theorem extractExports_overloads_duplicated:
  "map (\<lambda>e. (e_name e, e_isDefault e)) (extractExports overloads ''/p/a.ts'') =
     [(''f'', False), (''f'', False), (''f'', False)]"
  by code_simp

subsection \<open>C3\<close>

text \<open>
  C3, as the code has it. \<open>resolveImportPath\<close> probes the joined base path with each of the
  eight suffixes \<open>.ts\<close>, \<open>.tsx\<close>, \<open>.js\<close>, \<open>.jsx\<close>, \<open>.mjs\<close>, \<open>/index.ts\<close>, \<open>/index.tsx\<close>,
  \<open>/index.js\<close>, in this order, and returns the first candidate that can be read; when none
  can it returns the joined base path as it is. The base path itself is not probed.
\<close>

theorem resolveImportPath_probes_extensions:
  "resolveImportPath readFile importPath fromFile rootDir =
     (let base = pathResolve (dirname fromFile) importPath
      in case find (\<lambda>p. readFile p \<noteq> None)
                [base @ ''.ts'', base @ ''.tsx'', base @ ''.js'', base @ ''.jsx'', base @ ''.mjs'',
                 base @ ''/index.ts'', base @ ''/index.tsx'', base @ ''/index.js''] of
           Some p \<Rightarrow> p
         | None \<Rightarrow> base)"
  unfolding resolveImportPath_def tryExtensions_find extensions_def Let_def by simp

text \<open>
  C3 as stated fails: where both \<open>/p/x\<close> and \<open>/p/x.ts\<close> exist, the import \<open>./x\<close> from
  \<open>/p/b.ts\<close> resolves to \<open>/p/x.ts\<close>, not to the literal path \<open>/p/x\<close>.
\<close>

theorem resolveImportPath_literal_counterexample:
  "literalFs (pathResolve (dirname ''/p/b.ts'') ''./x'') \<noteq> None \<and>
   resolveImportPath literalFs ''./x'' ''/p/b.ts'' ''/p'' \<noteq> pathResolve (dirname ''/p/b.ts'') ''./x'' \<and>
   resolveImportPath literalFs ''./x'' ''/p/b.ts'' ''/p'' = ''/p/x.ts''"
  by code_simp

subsection \<open>C4\<close>

text \<open>
  C4, as the code has it. Every symbol that a declaration pattern matches is in the result,
  and its \<open>estimatedSize\<close> is \<open>estimateSize\<close> of the text from the start of the match to the
  next blank line or the end of the file. Every other symbol of the result comes from an
  \<open>export { ... }\<close> list: it is of kind \<open>const\<close>, not a default export, and its
  \<open>estimatedSize\<close> is the constant 100.
\<close>

theorem extractExports_estimatedSize:
  "(\<forall>(r, ty) \<in> set patterns. \<forall>m \<in> set (execAll r (None, content)).
      declItem content filePath ty m \<in> set (extractExports content filePath) \<and>
      e_estimatedSize (declItem content filePath ty m) =
        estimateSize (upToBlankLine (drop (matchIndex content m) content))) \<and>
   (\<forall>e \<in> set (extractExports content filePath).
      e \<in> set (declItems content filePath) \<or>
      (e_type e = T_const \<and> \<not> e_isDefault e \<and> e_estimatedSize e = 100))"
proof -
  obtain ys where ys: "extractExports content filePath = declItems content filePath @ ys"
    "list_all fromExportList ys"
    using extractExports_append by blast
  have "\<forall>(r, ty) \<in> set patterns. \<forall>m \<in> set (execAll r (None, content)).
      declItem content filePath ty m \<in> set (extractExports content filePath)"
    using ys(1) by (auto simp: declItems_iff)
  moreover have "\<forall>e \<in> set (extractExports content filePath).
      e \<in> set (declItems content filePath) \<or>
      (e_type e = T_const \<and> \<not> e_isDefault e \<and> e_estimatedSize e = 100)"
    using ys by (auto simp: list_all_iff fromExportList_def)
  ultimately show ?thesis by (simp add: declItem_size split_beta)
qed

theorem extractExports_estimatedSize_witness:
  "(reConst, T_const) \<in> set patterns \<and>
   sizeMatch \<in> set (execAll reConst (None, sizeExample)) \<and>
   declItem sizeExample ''/p/a.ts'' T_const sizeMatch \<in> set (extractExports sizeExample ''/p/a.ts'') \<and>
   e_estimatedSize (declItem sizeExample ''/p/a.ts'' T_const sizeMatch) =
     estimateSize ''export const a = 1'' \<and>
   map e_estimatedSize (extractExports sizeExample ''/p/a.ts'') = [11, 100]"
proof -
  have p: "(reConst, T_const) \<in> set patterns" by (simp add: patterns_def)
  have m: "sizeMatch \<in> set (execAll reConst (None, sizeExample))" by code_simp
  have u: "upToBlankLine (drop (matchIndex sizeExample sizeMatch) sizeExample) = ''export const a = 1''"
    by code_simp
  have v: "map e_estimatedSize (extractExports sizeExample ''/p/a.ts'') = [11, 100]"
    by code_simp
  from extractExports_estimatedSize [of sizeExample "''/p/a.ts''"] p m
  have "declItem sizeExample ''/p/a.ts'' T_const sizeMatch \<in> set (extractExports sizeExample ''/p/a.ts'') \<and>
      e_estimatedSize (declItem sizeExample ''/p/a.ts'' T_const sizeMatch) =
        estimateSize (upToBlankLine (drop (matchIndex sizeExample sizeMatch) sizeExample))"
    by blast
  with p m u v show ?thesis by simp
qed

text \<open>
  C4 as stated fails on export lists: the symbol of \<open>export { foo }\<close> gets the size 100,
  while the size estimate of its text up to the end of the file is 8.
\<close>

theorem extractExports_reexport_size_counterexample:
  "extractExports ''export { foo }'' ''/p/a.ts'' =
     [\<lparr>e_name = ''foo'', e_type = T_const, e_file = ''/p/a.ts'', e_line = 1,
       e_isDefault = False, e_estimatedSize = 100\<rparr>] \<and>
   estimateSize (upToBlankLine ''export { foo }'') = 8"
  by code_simp

subsection \<open>C5\<close>

text \<open>
  C5, as the code has it. \<open>analyzeExports\<close> fails exactly when the traversal fails, with the
  traversal's error and no report. When the traversal lists files, a report is returned
  whatever can or cannot be read, and the files that cannot be read contribute nothing.
  The analyzer makes no check of its own that the root directory exists.
\<close>

theorem analyzeExports_errors:
  "(\<forall>err. analyzeExports globFn readFile rootDir includeTypes exclude = Inl err \<longleftrightarrow>
          globFn DEFAULT_INCLUDE rootDir (DEFAULT_EXCLUDE @ exclude) = Inl err) \<and>
   (\<forall>fileList. globFn DEFAULT_INCLUDE rootDir (DEFAULT_EXCLUDE @ exclude) = Inr fileList \<longrightarrow>
      (\<exists>rep. analyzeExports globFn readFile rootDir includeTypes exclude = Inr rep) \<and>
      collect readFile rootDir fileList =
        collect readFile rootDir (filter (\<lambda>f. readFile f \<noteq> None) fileList))"
proof -
  have "\<forall>err. analyzeExports globFn readFile rootDir includeTypes exclude = Inl err \<longleftrightarrow>
          globFn DEFAULT_INCLUDE rootDir (DEFAULT_EXCLUDE @ exclude) = Inl err"
    by (auto simp: analyzeExports_def Let_def split: sum.splits prod.splits)
  moreover have "\<forall>fileList. globFn DEFAULT_INCLUDE rootDir (DEFAULT_EXCLUDE @ exclude) = Inr fileList \<longrightarrow>
      (\<exists>rep. analyzeExports globFn readFile rootDir includeTypes exclude = Inr rep)"
    by (auto simp: analyzeExports_def Let_def split: sum.splits prod.splits)
  ultimately show ?thesis using collect_readable by blast
qed

theorem analyzeExports_errors_witness:
  "analyzeExports failingGlob threeFs ''/p'' False [] = Inl (TraversalError ''EACCES'') \<and>
   threeFs ''/p/zz.ts'' = None \<and>
   (\<exists>rep. analyzeExports (globOf ''/p'' [''/p/a.ts'', ''/p/zz.ts'']) threeFs ''/p'' False []
            = Inr rep) \<and>
   collect threeFs ''/p'' [''/p/a.ts'', ''/p/zz.ts''] = collect threeFs ''/p'' [''/p/a.ts'']"
proof -
  let ?g = "globOf ''/p'' [''/p/a.ts'', ''/p/zz.ts'']"
  have f: "failingGlob DEFAULT_INCLUDE ''/p'' (DEFAULT_EXCLUDE @ []) = Inl (TraversalError ''EACCES'')"
    by (simp add: failingGlob_def)
  have g: "?g DEFAULT_INCLUDE ''/p'' (DEFAULT_EXCLUDE @ []) = Inr [''/p/a.ts'', ''/p/zz.ts'']"
    by (simp add: globOf_def)
  have z: "threeFs ''/p/zz.ts'' = None" by (simp add: threeFs_def)
  have r: "filter (\<lambda>f. threeFs f \<noteq> None) [''/p/a.ts'', ''/p/zz.ts''] = [''/p/a.ts'']"
    by (simp add: threeFs_def)
  from analyzeExports_errors [where globFn = failingGlob and rootDir = "''/p''" and exclude = "[]"
      and readFile = threeFs and includeTypes = False] f
  have a: "analyzeExports failingGlob threeFs ''/p'' False [] = Inl (TraversalError ''EACCES'')"
    by blast
  from analyzeExports_errors [where globFn = ?g and rootDir = "''/p''" and exclude = "[]"
      and readFile = threeFs and includeTypes = False] g
  have b: "(\<exists>rep. analyzeExports ?g threeFs ''/p'' False [] = Inr rep) \<and>
      collect threeFs ''/p'' [''/p/a.ts'', ''/p/zz.ts''] =
        collect threeFs ''/p'' (filter (\<lambda>f. threeFs f \<noteq> None) [''/p/a.ts'', ''/p/zz.ts''])"
    by blast
  from a b z show ?thesis unfolding r by simp
qed

text \<open>
  C5 as stated fails where the traversal lists no files for a directory that does not
  exist (as \<open>fast-glob\<close> does, which passes over a missing directory): the scan of
  \<open>/missing\<close> returns the empty report, not an error.
\<close>

theorem analyzeExports_missing_root_counterexample:
  "analyzeExports (globOf ''/p'' [''/p/a.ts'', ''/p/b.ts'', ''/p/c.ts'']) threeFs ''/missing'' False []
     = Inr \<lparr>files = [], totalExports = 0, unusedExports = 0, usedExports = 0,
            estimatedSavings = 0\<rparr>"
  by code_simp

subsection \<open>C6\<close>

text \<open>
  C6. For a default export, an import is a usage exactly when it is a default import and
  its resolved file and the export's file are equal after a known source extension
  (\<open>.ts\<close>, \<open>.tsx\<close>, \<open>.js\<close>, \<open>.jsx\<close>, \<open>.mjs\<close>) is stripped from each: the names play no part,
  whatever the name of the export and the name of the import are. So the files that
  consume a default export are the files of the default imports of its module, and it is
  unused exactly when there is none.
\<close>

theorem default_import_matches_default_export:
  assumes "e_isDefault exp"
  shows "(isUsage exp imp \<longleftrightarrow>
        i_isDefault imp \<and>
        stripKnownExtension (i_fromFile imp) = stripKnownExtension (e_file exp)) \<and>
     (\<forall>n n'. isUsage (exp \<lparr> e_name := n \<rparr>) (imp \<lparr> i_name := n' \<rparr>) = isUsage exp imp) \<and>
     (isSameFile imp exp \<longleftrightarrow>
        stripKnownExtension (i_fromFile imp) = stripKnownExtension (e_file exp)) \<and>
     set (a_usedIn (analyse allImports exp)) =
       i_toFile ` {i \<in> set allImports. i_isDefault i \<and>
          stripKnownExtension (i_fromFile i) = stripKnownExtension (e_file exp)} \<and>
     (a_isUnused (analyse allImports exp) \<longleftrightarrow>
        (\<forall>i \<in> set allImports. \<not> (i_isDefault i \<and>
           stripKnownExtension (i_fromFile i) = stripKnownExtension (e_file exp))))"
proof -
  note u = isUsage_default [OF assms]
  have n: "\<forall>n n'. isUsage (exp \<lparr> e_name := n \<rparr>) (imp \<lparr> i_name := n' \<rparr>) = isUsage exp imp"
    using assms by (simp add: isUsage_def isSameFile_def)
  have s: "set (a_usedIn (analyse allImports exp)) =
       i_toFile ` {i \<in> set allImports. i_isDefault i \<and>
          stripKnownExtension (i_fromFile i) = stripKnownExtension (e_file exp)}"
    unfolding analyse_usedIn u ..
  have un: "a_isUnused (analyse allImports exp) \<longleftrightarrow>
        (\<forall>i \<in> set allImports. \<not> (i_isDefault i \<and>
           stripKnownExtension (i_fromFile i) = stripKnownExtension (e_file exp)))"
    unfolding analyse_isUnused u ..
  from u [of imp] n isSameFile_spec [of imp exp] s un show ?thesis by blast
qed

theorem default_import_matches_default_export_witness:
  "extractExports ''export default function run(){}'' ''/p/a.ts'' = [runExport] \<and>
   extractImports defaultFs (''import run from '' @ [sq] @ ''./a'' @ [sq]) ''/p/b.ts'' ''/p''
     = [runImport] \<and>
   extractImports defaultFs (''import go from '' @ [sq] @ ''./a.js'' @ [sq]) ''/p/b.ts'' ''/p''
     = [goImport] \<and>
   extractImports defaultFs (''import { run } from '' @ [sq] @ ''./a'' @ [sq]) ''/p/c.ts'' ''/p''
     = [runNamedImport] \<and>
   e_name runExport = ''run'' \<and> e_file runExport = ''/p/a.ts'' \<and>
   i_name goImport = ''default'' \<and> i_fromFile goImport = ''/p/a.js'' \<and>
   i_name runNamedImport = ''run'' \<and> i_fromFile runNamedImport = ''/p/a.ts'' \<and>
   isUsage runExport runImport \<and> isUsage runExport goImport \<and>
   \<not> isUsage runExport runNamedImport \<and>
   \<not> isUsage runExport (goImport \<lparr> i_fromFile := ''/p/b.js'' \<rparr>) \<and>
   set (a_usedIn (analyse [goImport, runNamedImport] runExport)) = {''/p/b.ts''} \<and>
   \<not> a_isUnused (analyse [goImport, runNamedImport] runExport) \<and>
   a_isUnused (analyse [runNamedImport] runExport)"
proof -
  have e: "extractExports ''export default function run(){}'' ''/p/a.ts'' = [runExport]"
    by code_simp
  have i: "extractImports defaultFs (''import go from '' @ [sq] @ ''./a.js'' @ [sq]) ''/p/b.ts'' ''/p''
     = [goImport]"
    by code_simp
  have i0: "extractImports defaultFs (''import run from '' @ [sq] @ ''./a'' @ [sq]) ''/p/b.ts'' ''/p''
     = [runImport]"
    by code_simp
  have j: "extractImports defaultFs (''import { run } from '' @ [sq] @ ''./a'' @ [sq]) ''/p/c.ts'' ''/p''
     = [runNamedImport]"
    by code_simp
  have h: "e_isDefault runExport" by (simp add: runExport_def)
  have s: "stripKnownExtension ''/p/a.js'' = ''/p/a''" "stripKnownExtension ''/p/a.ts'' = ''/p/a''"
    "stripKnownExtension ''/p/b.js'' = ''/p/b''"
    by code_simp+
  note t = default_import_matches_default_export [OF h]
  from t [of goImport "[]"] have 1: "isUsage runExport goImport"
    by (simp add: goImport_def runExport_def s)
  from t [of runImport "[]"] have 0: "isUsage runExport runImport"
    by (simp add: runImport_def runExport_def s)
  from t [of runNamedImport "[]"] have 2: "\<not> isUsage runExport runNamedImport"
    by (simp add: runNamedImport_def)
  from t [of "goImport \<lparr> i_fromFile := ''/p/b.js'' \<rparr>" "[]"]
  have 3: "\<not> isUsage runExport (goImport \<lparr> i_fromFile := ''/p/b.js'' \<rparr>)"
    by (simp add: goImport_def runExport_def s)
  have f: "{i \<in> set [goImport, runNamedImport]. i_isDefault i \<and>
          stripKnownExtension (i_fromFile i) = stripKnownExtension (e_file runExport)} = {goImport}"
    by (auto simp: goImport_def runNamedImport_def runExport_def s)
  from t [of goImport "[goImport, runNamedImport]"]
  have "set (a_usedIn (analyse [goImport, runNamedImport] runExport)) =
       i_toFile ` {i \<in> set [goImport, runNamedImport]. i_isDefault i \<and>
          stripKnownExtension (i_fromFile i) = stripKnownExtension (e_file runExport)}"
    by blast
  then have 4: "set (a_usedIn (analyse [goImport, runNamedImport] runExport)) = {''/p/b.ts''}"
    unfolding f by (simp add: goImport_def)
  from t [of goImport "[goImport, runNamedImport]"]
  have 5: "\<not> a_isUnused (analyse [goImport, runNamedImport] runExport)"
    by (simp add: goImport_def runNamedImport_def runExport_def s)
  from t [of goImport "[runNamedImport]"]
  have 6: "a_isUnused (analyse [runNamedImport] runExport)"
    by (simp add: runNamedImport_def)
  from e i0 i j 0 1 2 3 4 5 6 show ?thesis
    by (simp add: runExport_def goImport_def runNamedImport_def)
qed

subsection \<open>C7\<close>




subsection \<open>C8\<close>

text \<open>
  C8. With \<open>includeTypes = false\<close> the exports of kind \<open>type\<close> and \<open>interface\<close> are removed
  before usage matching: the report is the report of the other exports, whatever the
  imports are; \<open>totalExports\<close> counts the other exports only; no record of the report is
  of kind \<open>type\<close> or \<open>interface\<close>; and a file all of whose exports are of these kinds is
  not in the report's file list.
\<close>

theorem includeTypes_false_drops_types:
  assumes "globFn DEFAULT_INCLUDE rootDir (DEFAULT_EXCLUDE @ exclude) = Inr fileList"
    and "collect readFile rootDir fileList = (allExports, allImports)"
  shows "\<exists>rep. analyzeExports globFn readFile rootDir False exclude = Inr rep \<and>
      rep = report allImports (filter (\<lambda>e. e_type e \<noteq> T_type \<and> e_type e \<noteq> T_interface) allExports) \<and>
      totalExports rep =
        length (filter (\<lambda>e. e_type e \<noteq> T_type \<and> e_type e \<noteq> T_interface) allExports) \<and>
      (\<forall>fa \<in> set (files rep). \<forall>an \<in> set (f_exports fa).
         e_type (a_export an) \<noteq> T_type \<and> e_type (a_export an) \<noteq> T_interface) \<and>
      (\<forall>f. (\<forall>e \<in> set allExports. e_file e = f \<longrightarrow> e_type e = T_type \<or> e_type e = T_interface)
           \<longrightarrow> f \<notin> f_file ` set (files rep))"
proof -
  let ?exps = "filter (\<lambda>e. e_type e \<noteq> T_type \<and> e_type e \<noteq> T_interface) allExports"
  let ?rep = "report allImports ?exps"
  have "keepExport False = (\<lambda>e. e_type e \<noteq> T_type \<and> e_type e \<noteq> T_interface)"
    by (rule ext) (simp add: keepExport_def)
  then have k: "filter (keepExport False) allExports = ?exps"
    by simp
  have run: "analyzeExports globFn readFile rootDir False exclude = Inr ?rep"
    using assms by (simp add: analyzeExports_def Let_def k)
  have t: "totalExports ?rep = length ?exps" by (rule report_totalExports)
  have a: "\<forall>fa \<in> set (files ?rep). \<forall>an \<in> set (f_exports fa).
         e_type (a_export an) \<noteq> T_type \<and> e_type (a_export an) \<noteq> T_interface"
    by (auto simp: report_set_files fileGroup_def Let_def)
  have b: "\<forall>f. (\<forall>e \<in> set allExports. e_file e = f \<longrightarrow> e_type e = T_type \<or> e_type e = T_interface)
           \<longrightarrow> f \<notin> f_file ` set (files ?rep)"
    by (auto simp: report_set_files fileGroup_def Let_def)
  from run t a b show ?thesis by blast
qed

theorem includeTypes_false_drops_types_witness:
  "\<exists>rep. analyzeExports (globOf ''/p'' [''/p/a.ts'', ''/p/b.ts'']) typesFs ''/p'' False [] = Inr rep \<and>
     collect typesFs ''/p'' [''/p/a.ts'', ''/p/b.ts''] = (typesExports, typesImports) \<and>
     totalExports rep = 1 \<and>
     map f_file (files rep) = [''/p/b.ts''] \<and>
     ''/p/a.ts'' \<notin> f_file ` set (files rep)"
proof -
  let ?g = "globOf ''/p'' [''/p/a.ts'', ''/p/b.ts'']"
  let ?keep = "filter (\<lambda>e. e_type e \<noteq> T_type \<and> e_type e \<noteq> T_interface) typesExports"
  have g: "?g DEFAULT_INCLUDE ''/p'' (DEFAULT_EXCLUDE @ []) = Inr [''/p/a.ts'', ''/p/b.ts'']"
    by (simp add: globOf_def)
  have c: "collect typesFs ''/p'' [''/p/a.ts'', ''/p/b.ts''] = (typesExports, typesImports)"
    by code_simp
  from includeTypes_false_drops_types [where globFn = ?g and rootDir = "''/p''"
      and exclude = "[]" and readFile = typesFs, OF g c]
  obtain rep where rep: "analyzeExports ?g typesFs ''/p'' False [] = Inr rep"
    "rep = report typesImports ?keep"
    "totalExports rep = length ?keep"
    "\<forall>f. (\<forall>e \<in> set typesExports. e_file e = f \<longrightarrow> e_type e = T_type \<or> e_type e = T_interface)
           \<longrightarrow> f \<notin> f_file ` set (files rep)"
    by blast
  have n: "length ?keep = 1" by (simp add: typesExports_def)
  have "\<forall>e \<in> set typesExports. e_file e = ''/p/a.ts'' \<longrightarrow> e_type e = T_type \<or> e_type e = T_interface"
    by (simp add: typesExports_def)
  with rep(4) have a: "''/p/a.ts'' \<notin> f_file ` set (files rep)" by blast
  have f: "map f_file (files (report typesImports ?keep)) = [''/p/b.ts'']" by code_simp
  from rep(1,3) c n a f show ?thesis unfolding rep(2) by (intro exI [of _ "report typesImports ?keep"]) simp
qed

subsection \<open>C9\<close>

text \<open>
  C9. For every scan that the traversal lets run, the global totals are the sums over the
  file reports: \<open>totalExports\<close> sums the numbers of exports, \<open>unusedExports\<close> the unused
  counts, \<open>usedExports\<close> the used counts (and is their difference), and
  \<open>estimatedSavings\<close> sums \<open>estimatedSize\<close> over the unused records only. In terms of the
  scanned exports: \<open>totalExports\<close> is their number, \<open>unusedExports\<close> the number of those no
  import matches, \<open>estimatedSavings\<close> the sum of the sizes of those. When no export is
  imported anywhere, \<open>unusedExports = totalExports\<close>, \<open>usedExports = 0\<close> and
  \<open>estimatedSavings\<close> is the sum of all the sizes; three files with one such export each
  give 3, 3, 0 and the sum of the three sizes.
\<close>

theorem analyzeExports_totals:
  assumes "globFn DEFAULT_INCLUDE rootDir (DEFAULT_EXCLUDE @ exclude) = Inr fileList"
    and "collect readFile rootDir fileList = (allExports, allImports)"
    and "exps = filter (keepExport includeTypes) allExports"
  shows "\<exists>rep. analyzeExports globFn readFile rootDir includeTypes exclude = Inr rep \<and>
      totalExports rep = sum_list (map (\<lambda>fa. length (f_exports fa)) (files rep)) \<and>
      unusedExports rep = sum_list (map f_unusedCount (files rep)) \<and>
      usedExports rep = sum_list (map f_usedCount (files rep)) \<and>
      usedExports rep = totalExports rep - unusedExports rep \<and>
      estimatedSavings rep =
        sum_list (map (\<lambda>an. e_estimatedSize (a_export an))
          (filter a_isUnused (concat (map f_exports (files rep))))) \<and>
      totalExports rep = length exps \<and>
      unusedExports rep = length (filter (\<lambda>e. \<forall>i \<in> set allImports. \<not> isUsage e i) exps) \<and>
      estimatedSavings rep =
        sum_list (map e_estimatedSize (filter (\<lambda>e. \<forall>i \<in> set allImports. \<not> isUsage e i) exps)) \<and>
      ((\<forall>e \<in> set exps. \<forall>i \<in> set allImports. \<not> isUsage e i) \<longrightarrow>
         unusedExports rep = length exps \<and> usedExports rep = 0 \<and>
         estimatedSavings rep = sum_list (map e_estimatedSize exps))"
proof -
  let ?rep = "report allImports exps"
  have run: "analyzeExports globFn readFile rootDir includeTypes exclude = Inr ?rep"
    using assms by (simp add: analyzeExports_def Let_def)
  note tf = report_totals_files [of allImports exps]
  have t: "totalExports ?rep = length exps" by (rule report_totalExports)
  have u: "unusedExports ?rep = length (filter (\<lambda>e. \<forall>i \<in> set allImports. \<not> isUsage e i) exps)"
    by (simp add: report_unusedExports analyse_isUnused)
  have s: "estimatedSavings ?rep =
      sum_list (map e_estimatedSize (filter (\<lambda>e. \<forall>i \<in> set allImports. \<not> isUsage e i) exps))"
    by (simp add: report_estimatedSavings analyse_isUnused)
  have us: "usedExports ?rep = sum_list (map f_usedCount (files ?rep))"
    using tf report_used_sum [of allImports exps] by simp
  have sc: "estimatedSavings ?rep =
      sum_list (map (\<lambda>an. e_estimatedSize (a_export an))
        (filter a_isUnused (concat (map f_exports (files ?rep)))))"
    using tf by (simp add: unusedSizes_concat)
  have all: "(\<forall>e \<in> set exps. \<forall>i \<in> set allImports. \<not> isUsage e i) \<longrightarrow>
         unusedExports ?rep = length exps \<and> usedExports ?rep = 0 \<and>
         estimatedSavings ?rep = sum_list (map e_estimatedSize exps)"
  proof
    assume a: "\<forall>e \<in> set exps. \<forall>i \<in> set allImports. \<not> isUsage e i"
    then have "filter (\<lambda>e. \<forall>i \<in> set allImports. \<not> isUsage e i) exps = exps"
      by (intro filter_True) blast
    with t u s tf show "unusedExports ?rep = length exps \<and> usedExports ?rep = 0 \<and>
         estimatedSavings ?rep = sum_list (map e_estimatedSize exps)"
      by simp
  qed
  from run tf t u s us sc all show ?thesis by (intro exI [of _ ?rep]) simp
qed

theorem analyzeExports_totals_witness:
  "\<exists>rep. analyzeExports (globOf ''/p'' [''/p/a.ts'', ''/p/b.ts'', ''/p/c.ts'']) threeFs ''/p'' False []
           = Inr rep \<and>
     length (files rep) = 3 \<and>
     totalExports rep = 3 \<and> unusedExports rep = 3 \<and> usedExports rep = 0 \<and>
     estimatedSavings rep = sum_list (map e_estimatedSize threeExports) \<and>
     estimatedSavings rep = 14 + 11 + 11"
proof -
  let ?g = "globOf ''/p'' [''/p/a.ts'', ''/p/b.ts'', ''/p/c.ts'']"
  have g: "?g DEFAULT_INCLUDE ''/p'' (DEFAULT_EXCLUDE @ []) = Inr [''/p/a.ts'', ''/p/b.ts'', ''/p/c.ts'']"
    by (simp add: globOf_def)
  have c: "collect threeFs ''/p'' [''/p/a.ts'', ''/p/b.ts'', ''/p/c.ts''] = (threeExports, [])"
    by code_simp
  have k: "threeExports = filter (keepExport False) threeExports"
    by code_simp
  from analyzeExports_totals [where globFn = ?g and rootDir = "''/p''" and exclude = "[]"
      and readFile = threeFs and includeTypes = False, OF g c k]
  obtain rep where rep: "analyzeExports ?g threeFs ''/p'' False [] = Inr rep"
    "totalExports rep = length threeExports"
    "(\<forall>e \<in> set threeExports. \<forall>i \<in> set ([] :: ImportReference list). \<not> isUsage e i) \<longrightarrow>
       unusedExports rep = length threeExports \<and> usedExports rep = 0 \<and>
       estimatedSavings rep = sum_list (map e_estimatedSize threeExports)"
    by blast
  have n: "length threeExports = 3" by (simp add: threeExports_def)
  have sz: "sum_list (map e_estimatedSize threeExports) = 14 + 11 + 11"
    by (simp add: threeExports_def)
  have fl: "\<And>r. analyzeExports ?g threeFs ''/p'' False [] = Inr r \<Longrightarrow> length (files r) = 3"
  proof -
    fix r assume "analyzeExports ?g threeFs ''/p'' False [] = Inr r"
    moreover have "map_sum id (\<lambda>r. length (files r)) (analyzeExports ?g threeFs ''/p'' False []) = Inr 3"
      by code_simp
    ultimately show "length (files r) = 3" by simp
  qed
  from rep n sz fl [OF rep(1)] show ?thesis by (intro exI [of _ rep]) simp
qed

subsection \<open>C10\<close>




end
